theory Spec2Isabelle
  imports Main
begin

section \<open>Python strings\<close>

text \<open>
  A Python \<open>str\<close> is a sequence of Unicode code points, so it is modelled as a list of
  natural numbers (the code points), not as a list of bytes: the source handles the bullet
  U+2022, the em dash U+2014 and the en dash U+2013 as single characters.
  \<open>lit\<close> reads an ASCII literal.
\<close>

type_synonym ustr = "nat list"

definition lit :: "string \<Rightarrow> ustr" where
  "lit s = map of_char s"

text \<open>
  \<open>str.isspace\<close>: the characters removed by \<open>str.strip()\<close> and matched by \<open>\s\<close> in a
  \<open>str\<close> pattern (both use the same predicate of the interpreter).
\<close>

definition isspace :: "nat \<Rightarrow> bool" where
  "isspace c = ((9 \<le> c \<and> c \<le> 13) \<or> (28 \<le> c \<and> c \<le> 32) \<or> c = 133 \<or> c = 160
     \<or> c = 5760 \<or> (8192 \<le> c \<and> c \<le> 8202) \<or> c = 8232 \<or> c = 8233 \<or> c = 8239
     \<or> c = 8287 \<or> c = 12288)"

text \<open>
  The tables behind \<open>\d\<close> (\<open>str.isdecimal\<close>) and \<open>\w\<close> (\<open>str.isalnum\<close> or an underscore)
  belong to the Unicode database of the interpreter, not to this repository; they have
  hundreds of ranges and change with the Unicode version. They are a parameter of every
  function that uses them. \<open>ascii_tables\<close> is their restriction to ASCII.
\<close>

record unicode_tables =
  isdecimal :: "nat \<Rightarrow> bool"
  isalnum :: "nat \<Rightarrow> bool"

definition ascii_tables :: unicode_tables where
  "ascii_tables = \<lparr> isdecimal = (\<lambda>c. 48 \<le> c \<and> c \<le> 57),
                     isalnum = (\<lambda>c. (48 \<le> c \<and> c \<le> 57) \<or> (65 \<le> c \<and> c \<le> 90)
                                     \<or> (97 \<le> c \<and> c \<le> 122)) \<rparr>"

definition isword :: "unicode_tables \<Rightarrow> nat \<Rightarrow> bool" where
  "isword U c = (isalnum U c \<or> c = 95)"

text \<open>\<open>s.strip()\<close> and \<open>s.strip(chars)\<close>.\<close>

definition strip :: "ustr \<Rightarrow> ustr" where
  "strip s = rev (dropWhile isspace (rev (dropWhile isspace s)))"

definition strip_chars :: "ustr \<Rightarrow> ustr \<Rightarrow> ustr" where
  "strip_chars chars s =
     rev (dropWhile (\<lambda>c. c \<in> set chars) (rev (dropWhile (\<lambda>c. c \<in> set chars) s)))"

text \<open>\<open>s.startswith(p)\<close>, \<open>sep in s\<close> and \<open>s.split(sep, 1)\<close> for a non-empty \<open>sep\<close>.
  \<open>split_once\<close> is \<open>None\<close> where Python returns the one-element list \<open>[s]\<close>.\<close>

fun startswith :: "ustr \<Rightarrow> ustr \<Rightarrow> bool" where
  "startswith s [] = True"
| "startswith [] (p # ps) = False"
| "startswith (c # cs) (p # ps) = (c = p \<and> startswith cs ps)"

fun contains :: "ustr \<Rightarrow> ustr \<Rightarrow> bool" where
  "contains [] sep = (sep = [])"
| "contains (c # cs) sep = (startswith (c # cs) sep \<or> contains cs sep)"

fun split_once :: "ustr \<Rightarrow> ustr \<Rightarrow> (ustr \<times> ustr) option" where
  "split_once sep [] = (if sep = [] then Some ([], []) else None)"
| "split_once sep (c # cs) =
     (if startswith (c # cs) sep then Some ([], drop (length sep) (c # cs))
      else (case split_once sep cs of
              None \<Rightarrow> None
            | Some (left, right) \<Rightarrow> Some (c # left, right)))"

text \<open>
  \<open>s.upper()\<close> and \<open>s.lower()\<close> on the ASCII letters; other code points are kept.
  The source uses \<open>upper\<close> only in the comparison \<open>line.upper() == "DONE"\<close> and \<open>lower\<close>
  only before the substring tests of the parser selection. Python's full case mapping
  sends no code point outside ASCII to a string of the letters D, O, N, E, and the only
  ones it lowers to ASCII letters are U+212A (to \<open>k\<close>) and U+0130 (to \<open>i\<close> followed by
  U+0307), which cannot complete any of the six names tested; so both tests have the
  value they have in Python.
\<close>

definition upper :: "ustr \<Rightarrow> ustr" where
  "upper s = map (\<lambda>c. if 97 \<le> c \<and> c \<le> 122 then c - 32 else c) s"

definition lower :: "ustr \<Rightarrow> ustr" where
  "lower s = map (\<lambda>c. if 65 \<le> c \<and> c \<le> 90 then c + 32 else c) s"

text \<open>
  \<open>s.splitlines()\<close>: the line boundaries are LF, CR, CR LF, VT, FF, FS, GS, RS, NEL, LS
  and PS; a final boundary opens no further line.
\<close>

definition islinebreak :: "nat \<Rightarrow> bool" where
  "islinebreak c = (c \<in> {10, 11, 12, 13, 28, 29, 30, 133, 8232, 8233})"

fun splitlines_from :: "ustr \<Rightarrow> ustr \<Rightarrow> ustr list" where
  "splitlines_from cur [] = (if cur = [] then [] else [cur])"
| "splitlines_from cur (c # cs) =
     (if c = 13 then
        (case cs of
           [] \<Rightarrow> [cur]
         | d # ds \<Rightarrow> if d = 10 then cur # splitlines_from [] ds
                     else cur # splitlines_from [] (d # ds))
      else if islinebreak c then cur # splitlines_from [] cs
      else splitlines_from (cur @ [c]) cs)"

definition splitlines :: "ustr \<Rightarrow> ustr list" where
  "splitlines s = splitlines_from [] s"

section \<open>Line cleaning and key/value splitting\<close>

text \<open>
  \<open>re.sub(r'^\s*[-*\<bullet>\u2022]\s*', '', line)\<close>: the pattern is anchored at the start, takes
  all leading whitespace, needs one of the three glyphs (none of them is whitespace, so
  backtracking finds nothing new) and takes the whitespace after it.
\<close>

definition isbullet :: "nat \<Rightarrow> bool" where
  "isbullet c = (c = 45 \<or> c = 42 \<or> c = 8226)"

definition sub_bullets :: "ustr \<Rightarrow> ustr" where
  "sub_bullets line =
     (case dropWhile isspace line of
        [] \<Rightarrow> line
      | c # rest \<Rightarrow> if isbullet c then dropWhile isspace rest else line)"

text \<open>
  \<open>re.sub(r'^\d+\.?\s*', '', line)\<close>: at least one digit, then greedily an optional dot
  and whitespace; once a digit is found the match cannot fail.
\<close>

definition sub_numbers :: "unicode_tables \<Rightarrow> ustr \<Rightarrow> ustr" where
  "sub_numbers U line =
     (if takeWhile (isdecimal U) line = [] then line
      else (case dropWhile (isdecimal U) line of
              [] \<Rightarrow> []
            | c # rest \<Rightarrow> if c = 46 then dropWhile isspace rest
                          else dropWhile isspace (c # rest)))"

definition standard_line_clean :: "unicode_tables \<Rightarrow> ustr \<Rightarrow> ustr" where
  "standard_line_clean U line =
     (let line = strip line in
      if line = [] then []
      else strip (sub_numbers U (sub_bullets line)))"

definition separators :: "ustr list" where
  "separators = [[58], [32, 45, 32], [32, 8212, 32], [8211], [9]]"

text \<open>The characters of \<open>'*_`"\' '\<close>.\<close>

definition quote_chars :: ustr where
  "quote_chars = [42, 95, 96, 34, 39, 32]"

definition strip_quotes :: "ustr \<Rightarrow> ustr" where
  "strip_quotes s = strip_chars quote_chars (strip s)"

text \<open>
  The \<open>for sep in separators\<close> loop of \<open>_split_key_val\<close>, then its two last statements.
  The branch \<open>None\<close> of \<open>split_once\<close> is the unpacking error of \<open>left, right = [line]\<close>;
  it is not reached under \<open>sep in line\<close> (lemma \<open>contains_split_once\<close>).
\<close>

fun split_key_val_from :: "ustr list \<Rightarrow> ustr \<Rightarrow> (ustr \<times> ustr) option" where
  "split_key_val_from [] line =
     (if line \<noteq> [] then Some (strip_quotes line, []) else None)"
| "split_key_val_from (sep # seps) line =
     (if contains line sep then
        (case split_once sep line of
           Some (left, right) \<Rightarrow> Some (strip_quotes left, strip_quotes right)
         | None \<Rightarrow> None)
      else split_key_val_from seps line)"

definition split_key_val :: "ustr \<Rightarrow> (ustr \<times> ustr) option" where
  "split_key_val line = split_key_val_from separators line"

section \<open>Placeholder values and parsed records\<close>

text \<open>
  The values of a placeholder map (\<open>Dict[str, Any]\<close>) are the scalars \<open>None\<close>, booleans,
  integers and strings; \<open>py_str\<close> is \<open>str(val)\<close> and \<open>truthy\<close> the truth value used by
  \<open>or\<close>. A dict is an association list in insertion order, with distinct keys; a parsed
  record is a dict too.
\<close>

datatype pyval = PyNone | PyBool bool | PyInt int | PyStr ustr

type_synonym pydict = "(ustr \<times> pyval) list"

fun decimal :: "nat \<Rightarrow> ustr" where
  "decimal n = (if n < 10 then [48 + n] else decimal (n div 10) @ [48 + n mod 10])"

fun py_str :: "pyval \<Rightarrow> ustr" where
  "py_str PyNone = lit ''None''"
| "py_str (PyBool b) = (if b then lit ''True'' else lit ''False'')"
| "py_str (PyInt i) = (if i < 0 then 45 # decimal (nat (- i)) else decimal (nat i))"
| "py_str (PyStr s) = s"

fun truthy :: "pyval \<Rightarrow> bool" where
  "truthy PyNone = False"
| "truthy (PyBool b) = b"
| "truthy (PyInt i) = (i \<noteq> 0)"
| "truthy (PyStr s) = (s \<noteq> [])"

definition py_or :: "pyval \<Rightarrow> pyval \<Rightarrow> pyval" where
  "py_or x y = (if truthy x then x else y)"

text \<open>\<open>d.get(k)\<close>, with \<open>None\<close> for a missing key.\<close>

definition dict_get :: "pydict \<Rightarrow> ustr \<Rightarrow> pyval" where
  "dict_get d k = (case map_of d k of None \<Rightarrow> PyNone | Some v \<Rightarrow> v)"

section \<open>The four parsers and their selection\<close>

text \<open>The test \<open>not line or line.upper() == "DONE" or line.startswith("#")\<close> that makes each
  parser skip a cleaned line.\<close>

definition skip_line :: "ustr \<Rightarrow> bool" where
  "skip_line line = (line = [] \<or> upper line = lit ''DONE'' \<or> startswith line (lit ''#''))"

definition parse_lexicon_generating :: "unicode_tables \<Rightarrow> ustr \<Rightarrow> pydict \<Rightarrow> pydict list" where
  "parse_lexicon_generating U response placeholders =
     concat (map (\<lambda>raw_line.
       let line = standard_line_clean U raw_line in
       if skip_line line then []
       else (case split_key_val line of
               None \<Rightarrow> []
             | Some (word, translation) \<Rightarrow>
                 [[(lit ''word'', PyStr word),
                   (lit ''translation'', PyStr translation),
                   (lit ''language'', dict_get placeholders (lit ''language'')),
                   (lit ''sentiment'', py_or (dict_get placeholders (lit ''sentiment''))
                                             (dict_get placeholders (lit ''sentiment_type'')))]]))
       (splitlines response))"

definition parse_bootstrapping :: "unicode_tables \<Rightarrow> ustr \<Rightarrow> pydict \<Rightarrow> pydict list" where
  "parse_bootstrapping U response placeholders =
     concat (map (\<lambda>raw_line.
       let line = standard_line_clean U raw_line in
       if skip_line line then []
       else (case split_key_val line of
               None \<Rightarrow> []
             | Some (item_key, desc) \<Rightarrow>
                 [[(lit ''item'', PyStr item_key),
                   (lit ''description'', PyStr desc),
                   (lit ''language'', dict_get placeholders (lit ''language'')),
                   (lit ''target_type'', dict_get placeholders (lit ''target_type''))]]))
       (splitlines response))"

definition parse_sentiment_bearings :: "unicode_tables \<Rightarrow> ustr \<Rightarrow> pydict \<Rightarrow> pydict list" where
  "parse_sentiment_bearings U response placeholders =
     concat (map (\<lambda>raw_line.
       let line = standard_line_clean U raw_line in
       if skip_line line then []
       else (case split_key_val line of
               None \<Rightarrow> []
             | Some (phrase, bearing) \<Rightarrow>
                 [[(lit ''phrase'', PyStr phrase),
                   (lit ''bearing'', PyStr bearing),
                   (lit ''language'', dict_get placeholders (lit ''language'')),
                   (lit ''sentiment_type'', py_or (dict_get placeholders (lit ''sentiment_type''))
                                                  (dict_get placeholders (lit ''sentiment'')))]]))
       (splitlines response))"

definition parse_generic_key_value :: "unicode_tables \<Rightarrow> ustr \<Rightarrow> pydict \<Rightarrow> pydict list" where
  "parse_generic_key_value U response placeholders =
     concat (map (\<lambda>raw_line.
       let line = standard_line_clean U raw_line in
       if skip_line line then []
       else (case split_key_val line of
               None \<Rightarrow> []
             | Some (left, right) \<Rightarrow>
                 [[(lit ''key'', PyStr left), (lit ''value'', PyStr right)]
                  @ filter (\<lambda>(k, v). k \<in> set [lit ''language'', lit ''target_type'',
                                                 lit ''sentiment'', lit ''sentiment_type''])
                      placeholders]))
       (splitlines response))"

definition parse_response_by_task ::
    "unicode_tables \<Rightarrow> ustr \<Rightarrow> ustr \<Rightarrow> pydict \<Rightarrow> pydict list" where
  "parse_response_by_task U response task_folder placeholders =
     (let key = lower task_folder in
      if contains key (lit ''lexicon_generating'') \<or> contains key (lit ''lexicon-generating'')
      then parse_lexicon_generating U response placeholders
      else if contains key (lit ''lexicon_bootstrapping'')
              \<or> contains key (lit ''lexicon-bootstrapping'')
      then parse_bootstrapping U response placeholders
      else if contains key (lit ''sentiment_bearings'') \<or> contains key (lit ''sentiment-bearings'')
      then parse_sentiment_bearings U response placeholders
      else parse_generic_key_value U response placeholders)"

text \<open>
  The per-line pipeline as the specification words it, for comparison with the one of the
  source: the line is trimmed, the skip test is made on the trimmed line, and only a line
  that is kept has its bullet and its ordinal marker removed and is trimmed again.
  \<open>None\<close> is a skipped line.
\<close>

definition spec_line_clean :: "unicode_tables \<Rightarrow> ustr \<Rightarrow> ustr option" where
  "spec_line_clean U raw_line =
     (let line = strip raw_line in
      if skip_line line then None
      else Some (strip (sub_numbers U (sub_bullets line))))"

definition spec_record_count :: "unicode_tables \<Rightarrow> ustr \<Rightarrow> nat" where
  "spec_record_count U raw_line =
     (case spec_line_clean U raw_line of
        None \<Rightarrow> 0
      | Some line \<Rightarrow> (case split_key_val line of None \<Rightarrow> 0 | Some kv \<Rightarrow> 1))"

section \<open>Prompt templating\<close>

text \<open>
  The pattern \<open>\{(\w+)\}\<close> at the start of a text: an opening brace, the longest run of
  word characters, which must not be empty, and a closing brace. The closing brace is no
  word character in any version of the tables, so a shorter run cannot match either. The result is the name and the
  text after the match.
\<close>

fun match_marker :: "unicode_tables \<Rightarrow> ustr \<Rightarrow> (ustr \<times> ustr) option" where
  "match_marker U [] = None"
| "match_marker U (c # cs) =
     (if c = 123 \<and> takeWhile (isword U) cs \<noteq> [] then
        (case dropWhile (isword U) cs of
           [] \<Rightarrow> None
         | d # rest \<Rightarrow> if d = 125 then Some (takeWhile (isword U) cs, rest) else None)
      else None)"

text \<open>
  The scan that \<open>re.findall\<close> and \<open>re.sub\<close> share: from left to right, a match is taken
  where it starts and the scan goes on after it; any other character is passed over.
\<close>

datatype token = Lit nat | Marker ustr

function scan :: "unicode_tables \<Rightarrow> ustr \<Rightarrow> token list" where
  "scan U [] = []"
| "scan U (c # cs) =
     (case match_marker U (c # cs) of
        Some (name, rest) \<Rightarrow> Marker name # scan U rest
      | None \<Rightarrow> Lit c # scan U cs)"
  by pat_completeness auto
termination
proof (relation "measure (\<lambda>(U, s). length s)", goal_cases)
  case 1
  show ?case by simp
next
  case 2
  show ?case by simp
next
  case (3 U c cs x2 name rest)
  then have "match_marker U (c # cs) = Some (name, rest)" by simp
  then have "Suc (length rest) = length (dropWhile (isword U) cs)"
    by (auto split: if_splits list.splits)
  moreover have "length (dropWhile (isword U) cs) \<le> length cs"
    by (rule length_dropWhile_le)
  ultimately show ?case by simp
qed

text \<open>\<open>re.findall(r"\{(\w+)\}", text)\<close>.\<close>

definition findall :: "unicode_tables \<Rightarrow> ustr \<Rightarrow> ustr list" where
  "findall U text = concat (map (\<lambda>t. case t of Lit c \<Rightarrow> [] | Marker name \<Rightarrow> [name]) (scan U text))"

text \<open>\<open>list(dict.fromkeys(names))\<close>: the first occurrence of each name, in order.\<close>

fun fromkeys :: "ustr list \<Rightarrow> ustr list \<Rightarrow> ustr list" where
  "fromkeys seen [] = []"
| "fromkeys seen (x # xs) =
     (if x \<in> set seen then fromkeys seen xs else x # fromkeys (seen @ [x]) xs)"

definition find_placeholders :: "unicode_tables \<Rightarrow> ustr \<Rightarrow> ustr list" where
  "find_placeholders U text = fromkeys [] (findall U text)"

text \<open>The function \<open>_repl\<close> and \<open>re.sub(r"\{(\w+)\}", _repl, raw)\<close>.\<close>

definition repl :: "pydict \<Rightarrow> ustr \<Rightarrow> ustr" where
  "repl placeholders name =
     py_str (case map_of placeholders name of None \<Rightarrow> PyStr [] | Some val \<Rightarrow> val)"

definition re_sub :: "unicode_tables \<Rightarrow> pydict \<Rightarrow> ustr \<Rightarrow> ustr" where
  "re_sub U placeholders raw =
     concat (map (\<lambda>t. case t of Lit c \<Rightarrow> [c] | Marker name \<Rightarrow> repl placeholders name)
               (scan U raw))"

text \<open>
  What \<open>run\<close> can raise. \<open>FileNotFoundError\<close> carries the two path components below the
  prompts directory; \<open>ValueError\<close> carries the two lists its message prints, the missing
  names and the keys supplied. An object raised by a collaborator is an instance of
  \<open>Exception\<close> or, as \<open>KeyboardInterrupt\<close> and \<open>SystemExit\<close> are, of \<open>BaseException\<close>
  only; \<open>except Exception\<close> catches the former and lets the latter through.
\<close>

datatype raised = Exception ustr | BaseException ustr

datatype error =
    FileNotFoundError ustr ustr
  | ValueError "ustr list" "ustr list"
  | Uncaught raised

text \<open>
  The prompts directory is a lookup from task folder and prompt type to the text of
  \<open>prompt.txt\<close>, \<open>None\<close> where the file does not exist.
\<close>

definition load_and_fill_prompt ::
    "unicode_tables \<Rightarrow> (ustr \<Rightarrow> ustr \<Rightarrow> ustr option) \<Rightarrow> ustr \<Rightarrow> ustr \<Rightarrow> pydict \<Rightarrow> error + ustr" where
  "load_and_fill_prompt U prompts_dir task_folder prompt_type placeholders =
     (case prompts_dir task_folder prompt_type of
        None \<Rightarrow> Inl (FileNotFoundError task_folder prompt_type)
      | Some raw \<Rightarrow>
          let placeholder_names = find_placeholders U raw;
              missing = filter (\<lambda>p. map_of placeholders p = None) placeholder_names
          in if missing \<noteq> [] then Inl (ValueError missing (map fst placeholders))
             else Inr (re_sub U placeholders raw))"

section \<open>The batch loop\<close>

text \<open>
  \<open>self\<close>: the client and the prompts directory. \<open>generate\<close> is the client's method with
  its three keyword arguments; its last argument is the number of the call (1 for the
  first), so that a client may answer every call differently. The loop makes one call per
  batch, so the number of the call is the batch counter.
\<close>

record 't llm_task =
  generate :: "ustr \<Rightarrow> 't \<Rightarrow> int \<Rightarrow> nat \<Rightarrow> raised + ustr"
  prompts_dir :: "ustr \<Rightarrow> ustr \<Rightarrow> ustr option"

text \<open>
  The arguments of \<open>run\<close>. The temperature is passed on unread, so its type is left open.
  A progress callback gets its two arguments and the number of the batch that calls it;
  it returns (\<open>None\<close>) or raises.
\<close>

record 't run_args =
  task_folder :: ustr
  prompt_type :: ustr
  placeholders :: pydict
  target_count :: int
  temperature :: 't
  max_tokens :: int
  progress_callback :: "(int \<Rightarrow> int \<Rightarrow> nat \<Rightarrow> raised option) option"
  max_batches :: int

text \<open>The calls \<open>run\<close> makes to the client, to the parser and to the callback, in order.\<close>

datatype 't call = Generate ustr 't int | Parse ustr | Progress int int

text \<open>\<open>xs[:n]\<close>; a negative \<open>n\<close> counts from the end.\<close>

definition slice_to :: "int \<Rightarrow> 'a list \<Rightarrow> 'a list" where
  "slice_to n xs = (if 0 \<le> n then take (nat n) xs else take (length xs - nat (- n)) xs)"

text \<open>
  The \<open>while\<close> loop of \<open>run\<close> with the \<open>return\<close> after it, from a state of \<open>collected\<close>
  and \<open>batch_count\<close>; \<open>calls\<close> records the calls made so far. A \<open>break\<close> goes to the
  \<open>return\<close>. Logging is left out.
\<close>

function run_loop ::
    "unicode_tables \<Rightarrow> 't llm_task \<Rightarrow> 't run_args \<Rightarrow> ustr \<Rightarrow> pydict list \<Rightarrow> nat \<Rightarrow> 't call list
       \<Rightarrow> (error + pydict list) \<times> 't call list" where
  "run_loop U self a prompt collected batch_count calls =
     (if int (length collected) < target_count a \<and> int batch_count < max_batches a then
        (case generate self prompt (temperature a) (max_tokens a) (batch_count + 1) of
           Inl (Exception e) \<Rightarrow>
             (Inr (slice_to (target_count a) collected),
              calls @ [Generate prompt (temperature a) (max_tokens a)])
         | Inl (BaseException e) \<Rightarrow>
             (Inl (Uncaught (BaseException e)),
              calls @ [Generate prompt (temperature a) (max_tokens a)])
         | Inr response_text \<Rightarrow>
             (case parse_response_by_task U response_text (task_folder a) (placeholders a) of
                [] \<Rightarrow>
                  (Inr (slice_to (target_count a) collected),
                   calls @ [Generate prompt (temperature a) (max_tokens a), Parse response_text])
              | item # items \<Rightarrow>
                  (case progress_callback a of
                     None \<Rightarrow>
                       run_loop U self a prompt (collected @ item # items) (batch_count + 1)
                         (calls @ [Generate prompt (temperature a) (max_tokens a),
                                   Parse response_text])
                   | Some callback \<Rightarrow>
                       (case callback
                               (min (int (length (collected @ item # items))) (target_count a))
                               (target_count a) (batch_count + 1) of
                          Some (BaseException e) \<Rightarrow>
                            (Inl (Uncaught (BaseException e)),
                             calls @ [Generate prompt (temperature a) (max_tokens a),
                                      Parse response_text,
                                      Progress
                                        (min (int (length (collected @ item # items)))
                                           (target_count a))
                                        (target_count a)])
                        | _ \<Rightarrow>
                            run_loop U self a prompt (collected @ item # items) (batch_count + 1)
                              (calls @ [Generate prompt (temperature a) (max_tokens a),
                                        Parse response_text,
                                        Progress
                                          (min (int (length (collected @ item # items)))
                                             (target_count a))
                                          (target_count a)])))))
      else (Inr (slice_to (target_count a) collected), calls))"
  by pat_completeness auto
termination
  by (relation "measure (\<lambda>(U, self, a, prompt, collected, batch_count, calls).
                  nat (max_batches a) - batch_count)") auto

declare run_loop.simps [simp del]

definition run :: "unicode_tables \<Rightarrow> 't llm_task \<Rightarrow> 't run_args
                     \<Rightarrow> (error + pydict list) \<times> 't call list" where
  "run U self a =
     (case load_and_fill_prompt U (prompts_dir self) (task_folder a) (prompt_type a)
             (placeholders a) of
        Inl e \<Rightarrow> (Inl e, [])
      | Inr prompt \<Rightarrow> run_loop U self a prompt [] 0 [])"

text \<open>
  For the statements below: the text a token stands for in the template, the calls of a
  trace that are calls of the client, and the rounded-up quotient the specification
  writes \<open>ceil(target_count / k)\<close>.
\<close>

fun source :: "token \<Rightarrow> ustr" where
  "source (Lit c) = [c]"
| "source (Marker name) = 123 # name @ [125]"

fun is_generate :: "'t call \<Rightarrow> bool" where
  "is_generate (Generate prompt temp tokens) = True"
| "is_generate (Parse response) = False"
| "is_generate (Progress n m) = False"

text \<open>The calls of a batch that parses to records, \<open>n\<close> of them collected after it.\<close>

definition batch_calls :: "'t run_args \<Rightarrow> ustr \<Rightarrow> ustr \<Rightarrow> nat \<Rightarrow> 't call list" where
  "batch_calls a prompt response n =
     [Generate prompt (temperature a) (max_tokens a), Parse response]
     @ (case progress_callback a of
          None \<Rightarrow> []
        | Some callback \<Rightarrow> [Progress (min (int n) (target_count a)) (target_count a)])"


text \<open>
  A client and arguments for the examples: the client answers every call with the same
  response, the prompt is the text \<open>words\<close>, and the task folder \<open>lexicon\<close>
  selects the generic parser.
\<close>

definition demo_task :: "ustr \<Rightarrow> unit llm_task" where
  "demo_task response =
     \<lparr> generate = (\<lambda>prompt temp tokens n. Inr response),
       prompts_dir = (\<lambda>folder kind. Some (lit ''words'')) \<rparr>"

definition demo_args ::
    "int \<Rightarrow> int \<Rightarrow> (int \<Rightarrow> int \<Rightarrow> nat \<Rightarrow> raised option) option \<Rightarrow> unit run_args" where
  "demo_args target batches callback =
     \<lparr> task_folder = lit ''lexicon'', prompt_type = lit ''base'', placeholders = [],
       target_count = target, temperature = (), max_tokens = 500,
       progress_callback = callback, max_batches = batches \<rparr>"

section \<open>Facts about the string operations\<close>

lemma startswith_iff: "startswith s p \<longleftrightarrow> (\<exists>r. s = p @ r)"
  by (induction s p rule: startswith.induct) auto

lemma contains_iff: "contains s sep \<longleftrightarrow> (\<exists>l r. s = l @ sep @ r)"
proof (induction s)
  case Nil
  then show ?case by simp
next
  case (Cons c cs)
  show ?case
  proof
    assume "contains (c # cs) sep"
    then consider "startswith (c # cs) sep" | "contains cs sep" by auto
    then show "\<exists>l r. c # cs = l @ sep @ r"
    proof cases
      case 1
      then obtain r where "c # cs = sep @ r" by (auto simp: startswith_iff)
      then have "c # cs = [] @ sep @ r" by simp
      then show ?thesis by blast
    next
      case 2
      then obtain l r where "cs = l @ sep @ r" using Cons.IH by blast
      then have "c # cs = (c # l) @ sep @ r" by simp
      then show ?thesis by blast
    qed
  next
    assume "\<exists>l r. c # cs = l @ sep @ r"
    then obtain l r where lr: "c # cs = l @ sep @ r" by blast
    show "contains (c # cs) sep"
    proof (cases l)
      case Nil
      with lr have "startswith (c # cs) sep" by (auto simp: startswith_iff)
      then show ?thesis by simp
    next
      case (Cons a l')
      with lr have "cs = l' @ sep @ r" by simp
      then have "contains cs sep" using Cons.IH by blast
      then show ?thesis by simp
    qed
  qed
qed

lemma split_once_first:
  "line = l @ sep @ r \<Longrightarrow> (\<forall>l' r'. line = l' @ sep @ r' \<longrightarrow> length l \<le> length l')
     \<Longrightarrow> split_once sep line = Some (l, r)"
proof (induction line arbitrary: l)
  case Nil
  then show ?case by simp
next
  case (Cons c cs)
  show ?case
  proof (cases "startswith (c # cs) sep")
    case True
    then obtain r0 where r0: "c # cs = [] @ sep @ r0" by (auto simp: startswith_iff)
    with Cons.prems(2) have "length l \<le> length ([]::ustr)" by blast
    then have l: "l = []" by simp
    with Cons.prems(1) have "drop (length sep) (c # cs) = r" by simp
    with True l show ?thesis by simp
  next
    case False
    have "l \<noteq> []"
    proof
      assume "l = []"
      with Cons.prems(1) have "startswith (c # cs) sep" by (auto simp: startswith_iff)
      with False show False by simp
    qed
    then obtain l0 where l0: "l = c # l0" using Cons.prems(1) by (cases l) auto
    with Cons.prems(1) have cs: "cs = l0 @ sep @ r" by simp
    have "\<forall>l' r'. cs = l' @ sep @ r' \<longrightarrow> length l0 \<le> length l'"
    proof (intro allI impI)
      fix l' r' assume "cs = l' @ sep @ r'"
      then have "c # cs = (c # l') @ sep @ r'" by simp
      with Cons.prems(2) have "length l \<le> length (c # l')" by blast
      with l0 show "length l0 \<le> length l'" by simp
    qed
    with cs have "split_once sep cs = Some (l0, r)" by (rule Cons.IH)
    with False l0 show ?thesis by simp
  qed
qed

lemma contains_split_once: "contains line sep \<Longrightarrow> \<exists>l r. split_once sep line = Some (l, r)"
  by (induction line) (auto split: option.splits)

lemma strip_fixed_head: "strip (c # rest) = c # rest \<Longrightarrow> \<not> isspace c"
proof
  assume fixed: "strip (c # rest) = c # rest" and sp: "isspace c"
  have "length (dropWhile isspace (rev (dropWhile isspace (c # rest))))
          \<le> length (rev (dropWhile isspace (c # rest)))"
    by (rule length_dropWhile_le)
  then have "length (strip (c # rest)) \<le> length (dropWhile isspace (c # rest))"
    unfolding strip_def by (simp del: dropWhile.simps)
  also have "\<dots> \<le> length rest"
    using sp by (simp add: length_dropWhile_le)
  finally show False using fixed by simp
qed

section \<open>Claims on line cleaning and key/value splitting\<close>

text \<open>
  C9. Cleaning an already clean line returns it unchanged: if the line is trimmed
  (\<open>strip\<close> leaves it as it is), does not begin with a bullet glyph and does not begin
  with a decimal digit (the pattern of the ordinal marker needs one), then
  \<open>_standard_line_clean\<close> returns the line itself.
\<close>

theorem standard_line_clean_on_clean_line:
  assumes "strip line = line"
    and "\<forall>c rest. line = c # rest \<longrightarrow> \<not> isbullet c \<and> \<not> isdecimal U c"
  shows "standard_line_clean U line = line"
proof (cases line)
  case Nil
  then show ?thesis by (simp add: standard_line_clean_def strip_def)
next
  case (Cons c rest)
  with assms(1) have nsp: "\<not> isspace c" by (simp add: strip_fixed_head)
  from Cons assms(2) have nb: "\<not> isbullet c" and nd: "\<not> isdecimal U c" by auto
  from Cons nsp nb have b: "sub_bullets line = line" by (simp add: sub_bullets_def)
  from Cons nd have n: "sub_numbers U line = line" by (simp add: sub_numbers_def)
  from Cons assms(1) b n show ?thesis by (simp add: standard_line_clean_def Let_def)
qed

theorem standard_line_clean_on_clean_line_witness:
  "strip (lit ''rain: wet'') = lit ''rain: wet''
   \<and> standard_line_clean ascii_tables (lit ''rain: wet'') = lit ''rain: wet''"
proof -
  have h1: "strip (lit ''rain: wet'') = lit ''rain: wet''"
    by (simp add: strip_def lit_def isspace_def)
  have h2: "\<forall>c rest. lit ''rain: wet'' = c # rest \<longrightarrow> \<not> isbullet c \<and> \<not> isdecimal ascii_tables c"
    by (simp add: lit_def isbullet_def ascii_tables_def)
  from h1 standard_line_clean_on_clean_line [OF h1 h2] show ?thesis by blast
qed

lemma split_key_val_from_skip:
  "\<forall>sep \<in> set pre. \<not> contains s sep
     \<Longrightarrow> split_key_val_from (pre @ seps) s = split_key_val_from seps s"
  by (induction pre) auto

lemma split_key_val_no_separator:
  assumes ne: "line \<noteq> []"
    and no: "\<forall>sep \<in> set separators. \<not> (\<exists>l r. line = l @ sep @ r)"
  shows "split_key_val line = Some (strip_quotes line, [])"
proof -
  from no have "\<forall>sep \<in> set separators. \<not> contains line sep"
    by (simp add: contains_iff)
  from split_key_val_from_skip [OF this, of "[]"] ne
  show ?thesis by (simp add: split_key_val_def)
qed

lemma split_key_val_first_separator:
  assumes i: "i < length separators"
    and before: "\<forall>j < i. \<not> (\<exists>l r. line = l @ separators ! j @ r)"
    and at: "line = left @ separators ! i @ right"
    and first: "\<forall>l r. line = l @ separators ! i @ r \<longrightarrow> length left \<le> length l"
  shows "split_key_val line = Some (strip_quotes left, strip_quotes right)"
proof -
  from i have dec: "separators = take i separators @ separators ! i # drop (Suc i) separators"
    by (simp add: id_take_nth_drop)
  have "\<forall>sep \<in> set (take i separators). \<not> contains line sep"
  proof
    fix sep assume "sep \<in> set (take i separators)"
    then obtain j where "j < i" "sep = separators ! j"
      using i by (auto simp: in_set_conv_nth)
    with before show "\<not> contains line sep" by (simp add: contains_iff)
  qed
  from split_key_val_from_skip [OF this]
  have a: "split_key_val line = split_key_val_from (separators ! i # drop (Suc i) separators) line"
    unfolding split_key_val_def by (subst dec) simp
  from at have c: "contains line (separators ! i)"
    unfolding contains_iff by blast
  from at first have s: "split_once (separators ! i) line = Some (left, right)"
    by (rule split_once_first)
  from a c s show ?thesis by simp
qed

lemma trim_decomposition:
  "\<exists>pre post. s = pre @ rev (dropWhile P (rev (dropWhile P s))) @ post
     \<and> (\<forall>c \<in> set pre. P c) \<and> (\<forall>c \<in> set post. P c)"
proof -
  let ?t = "dropWhile P s"
  have "rev ?t = takeWhile P (rev ?t) @ dropWhile P (rev ?t)" by simp
  then have "rev (rev ?t) = rev (takeWhile P (rev ?t) @ dropWhile P (rev ?t))" by simp
  then have t: "?t = rev (dropWhile P (rev ?t)) @ rev (takeWhile P (rev ?t))"
    by (simp only: rev_rev_ident rev_append)
  have "s = takeWhile P s @ ?t" by simp
  with t have "s = takeWhile P s @ rev (dropWhile P (rev ?t)) @ rev (takeWhile P (rev ?t))"
    by simp
  moreover have "\<forall>c \<in> set (takeWhile P s). P c" by (auto dest: set_takeWhileD)
  moreover have "\<forall>c \<in> set (rev (takeWhile P (rev ?t))). P c" by (auto dest: set_takeWhileD)
  ultimately show ?thesis by blast
qed

lemma trim_ends:
  assumes "rev (dropWhile P (rev (dropWhile P s))) \<noteq> []"
  shows "\<not> P (hd (rev (dropWhile P (rev (dropWhile P s)))))
     \<and> \<not> P (last (rev (dropWhile P (rev (dropWhile P s)))))"
proof -
  let ?t = "dropWhile P s"
  let ?r = "rev (dropWhile P (rev ?t))"
  from assms have ne: "dropWhile P (rev ?t) \<noteq> []" by simp
  then have "\<not> P (hd (dropWhile P (rev ?t)))" by (rule hd_dropWhile)
  with ne have l: "\<not> P (last ?r)" by (simp add: last_rev)
  have "rev ?t = takeWhile P (rev ?t) @ dropWhile P (rev ?t)" by simp
  then have "rev (rev ?t) = rev (takeWhile P (rev ?t) @ dropWhile P (rev ?t))" by simp
  then have t: "?t = ?r @ rev (takeWhile P (rev ?t))"
    by (simp only: rev_rev_ident rev_append)
  with assms have "hd ?t = hd ?r" by (metis hd_append2)
  moreover from t assms have "?t \<noteq> []" by (metis append_is_Nil_conv)
  then have "\<not> P (hd ?t)" by (rule hd_dropWhile)
  ultimately show ?thesis using l by simp
qed

lemma strip_quotes_characterised:
  "\<exists>sp1 q1 q2 sp2. part = sp1 @ q1 @ strip_quotes part @ q2 @ sp2
     \<and> (\<forall>c \<in> set (sp1 @ sp2). isspace c)
     \<and> set (q1 @ q2) \<subseteq> {42, 95, 96, 34, 39, 32}
     \<and> (q1 @ strip_quotes part @ q2 = []
          \<or> (\<not> isspace (hd (q1 @ strip_quotes part @ q2))
              \<and> \<not> isspace (last (q1 @ strip_quotes part @ q2))))
     \<and> (strip_quotes part = []
          \<or> (hd (strip_quotes part) \<notin> {42, 95, 96, 34, 39, 32}
              \<and> last (strip_quotes part) \<notin> {42, 95, 96, 34, 39, 32}))"
proof -
  let ?Q = "\<lambda>c. c \<in> set quote_chars"
  have qs: "set quote_chars = {42, 95, 96, 34, 39, 32}" by (simp add: quote_chars_def)
  obtain sp1 sp2 where outer: "part = sp1 @ strip part @ sp2"
    and sp: "\<forall>c \<in> set sp1. isspace c" "\<forall>c \<in> set sp2. isspace c"
    using trim_decomposition [of part isspace] unfolding strip_def by blast
  obtain q1 q2 where inner: "strip part = q1 @ strip_quotes part @ q2"
    and q: "\<forall>c \<in> set q1. ?Q c" "\<forall>c \<in> set q2. ?Q c"
    using trim_decomposition [of "strip part" ?Q] unfolding strip_quotes_def strip_chars_def
    by blast
  have e1: "strip part = [] \<or> (\<not> isspace (hd (strip part)) \<and> \<not> isspace (last (strip part)))"
    using trim_ends [of isspace part] unfolding strip_def by blast
  have e2: "strip_quotes part = []
      \<or> (\<not> ?Q (hd (strip_quotes part)) \<and> \<not> ?Q (last (strip_quotes part)))"
    using trim_ends [of ?Q "strip part"] unfolding strip_quotes_def strip_chars_def by blast
  from outer inner have "part = sp1 @ q1 @ strip_quotes part @ q2 @ sp2" by simp
  moreover from sp have "\<forall>c \<in> set (sp1 @ sp2). isspace c" by auto
  moreover from q have "set (q1 @ q2) \<subseteq> {42, 95, 96, 34, 39, 32}" unfolding qs by auto
  moreover from e1 have "q1 @ strip_quotes part @ q2 = []
          \<or> (\<not> isspace (hd (q1 @ strip_quotes part @ q2))
              \<and> \<not> isspace (last (q1 @ strip_quotes part @ q2)))"
    unfolding inner .
  moreover from e2 have "strip_quotes part = []
          \<or> (hd (strip_quotes part) \<notin> {42, 95, 96, 34, 39, 32}
              \<and> last (strip_quotes part) \<notin> {42, 95, 96, 34, 39, 32})"
    unfolding qs .
  ultimately show ?thesis by blast
qed

text \<open>
  C7. \<open>_split_key_val\<close> tries the separators colon, \<open>" - "\<close>, the em dash U+2014
  between spaces, the en dash U+2013 and tab in this order. An empty line gives no pair.
  A non-empty line in which no separator occurs gives the whole line, trimmed and
  stripped of the quote characters, as key with an empty value. Otherwise the line is
  split at the first occurrence of the first separator of the list that occurs anywhere
  in it, and both parts are trimmed and stripped; \<open>"a: b - c"\<close> gives \<open>("a", "b - c")\<close>.
  Trimming and stripping a part removes whitespace from both ends until neither end is
  whitespace, then asterisks, underscores, backquotes, double quotes, single quotes and
  spaces from both ends until neither end is one of them, and keeps what is between:
  \<open>**bold**: `v`\<close> gives \<open>("bold", "v")\<close>.
\<close>

theorem split_key_val_priority:
  "separators = [lit '':'', lit '' - '', [32, 8212, 32], [8211], [9]]
   \<and> split_key_val [] = None
   \<and> (line \<noteq> [] \<and> (\<forall>sep \<in> set separators. \<not> (\<exists>l r. line = l @ sep @ r))
        \<longrightarrow> split_key_val line = Some (strip_quotes line, []))
   \<and> (i < length separators
        \<and> (\<forall>j < i. \<not> (\<exists>l r. line = l @ separators ! j @ r))
        \<and> line = left @ separators ! i @ right
        \<and> (\<forall>l r. line = l @ separators ! i @ r \<longrightarrow> length left \<le> length l)
        \<longrightarrow> split_key_val line = Some (strip_quotes left, strip_quotes right))
   \<and> split_key_val (lit ''a: b - c'') = Some (lit ''a'', lit ''b - c'')
   \<and> (\<exists>sp1 q1 q2 sp2. part = sp1 @ q1 @ strip_quotes part @ q2 @ sp2
        \<and> (\<forall>c \<in> set (sp1 @ sp2). isspace c)
        \<and> set (q1 @ q2) \<subseteq> {42, 95, 96, 34, 39, 32}
        \<and> (q1 @ strip_quotes part @ q2 = []
             \<or> (\<not> isspace (hd (q1 @ strip_quotes part @ q2))
                 \<and> \<not> isspace (last (q1 @ strip_quotes part @ q2))))
        \<and> (strip_quotes part = []
             \<or> (hd (strip_quotes part) \<notin> {42, 95, 96, 34, 39, 32}
                 \<and> last (strip_quotes part) \<notin> {42, 95, 96, 34, 39, 32})))
   \<and> split_key_val (lit ''**bold**: '' @ [96] @ lit ''v'' @ [96]) = Some (lit ''bold'', lit ''v'')
   \<and> split_key_val ([34] @ lit ''rain'' @ [34, 9, 39] @ lit ''wet'' @ [39])
        = Some (lit ''rain'', lit ''wet'')
   \<and> split_key_val (lit '' _sun_ - *warm* '') = Some (lit ''sun'', lit ''warm'')
   \<and> split_key_val ([96] @ lit ''word'' @ [96]) = Some (lit ''word'', [])
   \<and> split_key_val (lit ''* a *: b'') = Some (lit ''a'', lit ''b'')"
proof (intro conjI impI)
  show "separators = [lit '':'', lit '' - '', [32, 8212, 32], [8211], [9]]"
    by (simp add: separators_def lit_def)
  show "split_key_val [] = None"
    by (simp add: split_key_val_def separators_def)
  show "split_key_val (lit ''a: b - c'') = Some (lit ''a'', lit ''b - c'')"
    by (simp add: split_key_val_def separators_def lit_def strip_quotes_def strip_def
        strip_chars_def quote_chars_def isspace_def)
  show "split_key_val (lit ''**bold**: '' @ [96] @ lit ''v'' @ [96])
      = Some (lit ''bold'', lit ''v'')"
    by (simp add: split_key_val_def separators_def lit_def strip_quotes_def strip_def
        strip_chars_def quote_chars_def isspace_def)
  show "split_key_val ([34] @ lit ''rain'' @ [34, 9, 39] @ lit ''wet'' @ [39])
        = Some (lit ''rain'', lit ''wet'')"
    by (simp add: split_key_val_def separators_def lit_def strip_quotes_def strip_def
        strip_chars_def quote_chars_def isspace_def)
  show "split_key_val (lit '' _sun_ - *warm* '') = Some (lit ''sun'', lit ''warm'')"
    by (simp add: split_key_val_def separators_def lit_def strip_quotes_def strip_def
        strip_chars_def quote_chars_def isspace_def)
  show "split_key_val ([96] @ lit ''word'' @ [96]) = Some (lit ''word'', [])"
    by (simp add: split_key_val_def separators_def lit_def strip_quotes_def strip_def
        strip_chars_def quote_chars_def isspace_def)
  show "split_key_val (lit ''* a *: b'') = Some (lit ''a'', lit ''b'')"
    by (simp add: split_key_val_def separators_def lit_def strip_quotes_def strip_def
        strip_chars_def quote_chars_def isspace_def)
  show "\<exists>sp1 q1 q2 sp2. part = sp1 @ q1 @ strip_quotes part @ q2 @ sp2
        \<and> (\<forall>c \<in> set (sp1 @ sp2). isspace c)
        \<and> set (q1 @ q2) \<subseteq> {42, 95, 96, 34, 39, 32}
        \<and> (q1 @ strip_quotes part @ q2 = []
             \<or> (\<not> isspace (hd (q1 @ strip_quotes part @ q2))
                 \<and> \<not> isspace (last (q1 @ strip_quotes part @ q2))))
        \<and> (strip_quotes part = []
             \<or> (hd (strip_quotes part) \<notin> {42, 95, 96, 34, 39, 32}
                 \<and> last (strip_quotes part) \<notin> {42, 95, 96, 34, 39, 32}))"
    by (rule strip_quotes_characterised)
next
  assume "line \<noteq> [] \<and> (\<forall>sep \<in> set separators. \<not> (\<exists>l r. line = l @ sep @ r))"
  then show "split_key_val line = Some (strip_quotes line, [])"
    by (simp add: split_key_val_no_separator)
next
  assume "i < length separators
        \<and> (\<forall>j < i. \<not> (\<exists>l r. line = l @ separators ! j @ r))
        \<and> line = left @ separators ! i @ right
        \<and> (\<forall>l r. line = l @ separators ! i @ r \<longrightarrow> length left \<le> length l)"
  then show "split_key_val line = Some (strip_quotes left, strip_quotes right)"
    using split_key_val_first_separator by blast
qed

theorem split_key_val_priority_witness:
  "split_key_val (lit ''sun - warm - dry'') = Some (lit ''sun'', lit ''warm - dry'')
   \<and> split_key_val (lit ''sun'') = Some (lit ''sun'', [])
   \<and> split_key_val (lit ''**bold**: '' @ [96] @ lit ''v'' @ [96]) = Some (lit ''bold'', lit ''v'')"
proof -
  let ?line = "lit ''sun - warm - dry''"
  have h1: "(1::nat) < length separators" by (simp add: separators_def)
  have nc: "\<not> contains ?line (separators ! 0)" by (simp add: separators_def lit_def)
  have h2: "\<forall>j < (1::nat). \<not> (\<exists>l r. ?line = l @ separators ! j @ r)"
    using nc by (simp add: contains_iff)
  have h3: "?line = lit ''sun'' @ separators ! 1 @ lit ''warm - dry''"
    by (simp add: separators_def lit_def)
  have so: "split_once (separators ! 1) ?line = Some (lit ''sun'', lit ''warm - dry'')"
    by (simp add: separators_def lit_def)
  have h4: "\<forall>l r. ?line = l @ separators ! 1 @ r \<longrightarrow> length (lit ''sun'') \<le> length l"
  proof (intro allI impI)
    fix l r assume eq: "?line = l @ separators ! 1 @ r"
    show "length (lit ''sun'') \<le> length l"
    proof (rule ccontr)
      assume "\<not> length (lit ''sun'') \<le> length l"
      then have "length l < 3" by (simp add: lit_def)
      then consider "length l = 0" | "length l = 1" | "length l = 2" by linarith
      then show False
      proof cases
        case 1 with eq show False by (simp add: separators_def lit_def)
      next
        case 2
        then obtain a where "l = [a]" by (cases l) auto
        with eq show False by (simp add: separators_def lit_def)
      next
        case 3
        then obtain a b where "l = [a, b]"
          by (cases l; cases "tl l") auto
        with eq show False by (simp add: separators_def lit_def)
      qed
    qed
  qed
  have h5: "lit ''sun'' \<noteq> []" by (simp add: lit_def)
  have "\<forall>sep \<in> set separators. \<not> contains (lit ''sun'') sep"
    by (simp add: separators_def lit_def)
  then have h6: "\<forall>sep \<in> set separators. \<not> (\<exists>l r. lit ''sun'' = l @ sep @ r)"
    by (simp add: contains_iff)
  have e: "strip_quotes (lit ''sun'') = lit ''sun''"
      "strip_quotes (lit ''warm - dry'') = lit ''warm - dry''"
    by (simp_all add: lit_def strip_quotes_def strip_def strip_chars_def quote_chars_def isspace_def)
  from split_key_val_priority [where line = "lit ''sun - warm - dry''" and i = 1
      and left = "lit ''sun''" and right = "lit ''warm - dry''"]
    h1 h2 h3 h4
  have a: "split_key_val (lit ''sun - warm - dry'')
             = Some (strip_quotes (lit ''sun''), strip_quotes (lit ''warm - dry''))"
    by blast
  from split_key_val_priority [where line = "lit ''sun''"] h5 h6
  have b: "split_key_val (lit ''sun'') = Some (strip_quotes (lit ''sun''), [])"
    by blast
  from split_key_val_priority
  have c: "split_key_val (lit ''**bold**: '' @ [96] @ lit ''v'' @ [96])
             = Some (lit ''bold'', lit ''v'')"
    by blast
  from a b c e show ?thesis by simp
qed

section \<open>Claims on the parsers\<close>

lemma split_key_val_from_nonempty: "line \<noteq> [] \<Longrightarrow> split_key_val_from seps line \<noteq> None"
proof (induction seps)
  case Nil
  then show ?case by simp
next
  case (Cons sep seps)
  show ?case
  proof (cases "contains line sep")
    case True
    then obtain l r where "split_once sep line = Some (l, r)"
      using contains_split_once by blast
    with True show ?thesis by simp
  next
    case False
    with Cons show ?thesis by simp
  qed
qed

lemma length_concat_map_filter:
  "\<forall>x. (P x \<longrightarrow> length (f x) = 1) \<and> (\<not> P x \<longrightarrow> f x = [])
     \<Longrightarrow> length (concat (map f xs)) = length (filter P xs)"
  by (induction xs) auto

lemma kept_line_splits: "\<not> skip_line line \<Longrightarrow> \<exists>key val. split_key_val line = Some (key, val)"
proof -
  assume "\<not> skip_line line"
  then have "line \<noteq> []" by (simp add: skip_line_def)
  then have "split_key_val line \<noteq> None"
    unfolding split_key_val_def by (rule split_key_val_from_nonempty)
  then show ?thesis by auto
qed

lemma length_parse_lexicon_generating:
  "length (parse_lexicon_generating U response ps)
     = length (filter (\<lambda>raw. \<not> skip_line (standard_line_clean U raw)) (splitlines response))"
  unfolding parse_lexicon_generating_def
  by (rule length_concat_map_filter) (use kept_line_splits in \<open>fastforce simp: Let_def\<close>)

lemma length_parse_bootstrapping:
  "length (parse_bootstrapping U response ps)
     = length (filter (\<lambda>raw. \<not> skip_line (standard_line_clean U raw)) (splitlines response))"
  unfolding parse_bootstrapping_def
  by (rule length_concat_map_filter) (use kept_line_splits in \<open>fastforce simp: Let_def\<close>)

lemma length_parse_sentiment_bearings:
  "length (parse_sentiment_bearings U response ps)
     = length (filter (\<lambda>raw. \<not> skip_line (standard_line_clean U raw)) (splitlines response))"
  unfolding parse_sentiment_bearings_def
  by (rule length_concat_map_filter) (use kept_line_splits in \<open>fastforce simp: Let_def\<close>)

lemma length_parse_generic_key_value:
  "length (parse_generic_key_value U response ps)
     = length (filter (\<lambda>raw. \<not> skip_line (standard_line_clean U raw)) (splitlines response))"
  unfolding parse_generic_key_value_def
  by (rule length_concat_map_filter) (use kept_line_splits in \<open>fastforce simp: Let_def\<close>)

text \<open>
  C6, as stated, fails: the source strips the bullet and the ordinal marker first and
  makes the skip test on the cleaned line. The line \<open>- DONE\<close> is cleaned to \<open>DONE\<close> and
  skipped, where the pipeline as worded (skip test on the trimmed line, stripping
  afterwards) keeps it and yields one record.
\<close>

theorem skip_test_before_stripping_counterexample:
  "parse_lexicon_generating ascii_tables (lit ''- DONE'') [] = []
   \<and> spec_record_count ascii_tables (lit ''- DONE'') = 1"
  by (simp add: parse_lexicon_generating_def spec_record_count_def spec_line_clean_def
      splitlines_def standard_line_clean_def sub_bullets_def sub_numbers_def strip_def
      skip_line_def upper_def lit_def isspace_def isbullet_def ascii_tables_def islinebreak_def
      split_key_val_def separators_def strip_quotes_def strip_chars_def quote_chars_def)

text \<open>
  C6, amended. Line cleaning trims the line; an empty line stays empty; otherwise a
  leading bullet glyph, then a leading run of digits with an optional dot, are removed
  and the line is trimmed again. The skip test (empty, \<open>DONE\<close> in any case, or a leading
  \<open>#\<close>) is made on the cleaned line, after the stripping: whatever parser is selected,
  the response yields one record for each line whose cleaned form passes the test and
  none for the others. So \<open>12. sun: warm\<close> is cleaned to \<open>sun: warm\<close>, \<open>* 3 apples\<close> to
  \<open>apples\<close>, and the line \<open>7.\<close>, cleaned to the empty line, yields no record.
\<close>

theorem skip_test_after_stripping:
  "standard_line_clean U raw_line
     = (if strip raw_line = [] then []
        else strip (sub_numbers U (sub_bullets (strip raw_line))))
   \<and> length (parse_response_by_task U response folder ps)
       = length (filter (\<lambda>raw. \<not> skip_line (standard_line_clean U raw)) (splitlines response))
   \<and> standard_line_clean ascii_tables (lit '' 12. sun: warm '') = lit ''sun: warm''
   \<and> standard_line_clean ascii_tables (lit ''* 3 apples'') = lit ''apples''
   \<and> parse_lexicon_generating ascii_tables (lit ''7.'') [] = []"
proof (intro conjI)
  show "standard_line_clean U raw_line
     = (if strip raw_line = [] then []
        else strip (sub_numbers U (sub_bullets (strip raw_line))))"
    by (simp add: standard_line_clean_def Let_def)
  show "length (parse_response_by_task U response folder ps)
       = length (filter (\<lambda>raw. \<not> skip_line (standard_line_clean U raw)) (splitlines response))"
    by (simp add: parse_response_by_task_def Let_def
        length_parse_lexicon_generating length_parse_bootstrapping
        length_parse_sentiment_bearings length_parse_generic_key_value)
  show "standard_line_clean ascii_tables (lit '' 12. sun: warm '') = lit ''sun: warm''"
    by (simp add: standard_line_clean_def sub_bullets_def sub_numbers_def strip_def lit_def
        isspace_def isbullet_def ascii_tables_def)
  show "standard_line_clean ascii_tables (lit ''* 3 apples'') = lit ''apples''"
    by (simp add: standard_line_clean_def sub_bullets_def sub_numbers_def strip_def lit_def
        isspace_def isbullet_def ascii_tables_def)
  show "parse_lexicon_generating ascii_tables (lit ''7.'') [] = []"
    by (simp add: parse_lexicon_generating_def splitlines_def standard_line_clean_def
        sub_bullets_def sub_numbers_def strip_def skip_line_def lit_def isspace_def
        isbullet_def ascii_tables_def islinebreak_def)
qed

theorem skip_test_after_stripping_witness:
  "standard_line_clean ascii_tables (lit ''- DONE'') = lit ''DONE''
   \<and> length (parse_response_by_task ascii_tables (lit ''- DONE'' @ [10] @ lit ''2. sun: warm'')
               (lit ''lexicon_generating'') []) = 1"
proof -
  have c1: "strip (lit ''- DONE'') = lit ''- DONE''"
    by (simp add: strip_def lit_def isspace_def)
  have c2: "strip (sub_numbers ascii_tables (sub_bullets (lit ''- DONE''))) = lit ''DONE''"
    by (simp add: sub_bullets_def sub_numbers_def strip_def lit_def isspace_def isbullet_def
        ascii_tables_def)
  have c3: "standard_line_clean ascii_tables (lit ''2. sun: warm'') = lit ''sun: warm''"
    by (simp add: standard_line_clean_def sub_bullets_def sub_numbers_def strip_def lit_def
        isspace_def isbullet_def ascii_tables_def)
  have l: "splitlines (lit ''- DONE'' @ [10] @ lit ''2. sun: warm'')
             = [lit ''- DONE'', lit ''2. sun: warm'']"
    by (simp add: splitlines_def lit_def islinebreak_def)
  have s1: "skip_line (lit ''DONE'')" by (simp add: skip_line_def upper_def lit_def)
  have s2: "\<not> skip_line (lit ''sun: warm'')" by (simp add: skip_line_def upper_def lit_def)
  from skip_test_after_stripping [of ascii_tables "lit ''- DONE''"
      "lit ''- DONE'' @ [10] @ lit ''2. sun: warm''" "lit ''lexicon_generating''" "[]"]
  have "standard_line_clean ascii_tables (lit ''- DONE'') = lit ''DONE''"
    and "length (parse_response_by_task ascii_tables (lit ''- DONE'' @ [10] @ lit ''2. sun: warm'')
               (lit ''lexicon_generating'') [])
         = length (filter (\<lambda>raw. \<not> skip_line (standard_line_clean ascii_tables raw))
             [lit ''- DONE'', lit ''2. sun: warm''])"
    by (simp_all only: c1 c2 l) (simp_all add: lit_def)
  with c3 s1 s2 show ?thesis by simp
qed

section \<open>Claims on prompt templating\<close>

lemma set_fromkeys: "set (fromkeys seen xs) = set xs - set seen"
  by (induction xs arbitrary: seen) auto

lemma distinct_fromkeys: "distinct (fromkeys seen xs)"
  by (induction xs arbitrary: seen) (auto simp: set_fromkeys)

lemma set_find_placeholders: "set (find_placeholders U text) = set (findall U text)"
  by (simp add: find_placeholders_def set_fromkeys)

lemma match_marker_source:
  "match_marker U s = Some (name, rest) \<Longrightarrow> s = 123 # name @ 125 # rest"
proof (cases s)
  case Nil
  then show "match_marker U s = Some (name, rest) \<Longrightarrow> s = 123 # name @ 125 # rest" by simp
next
  case (Cons c cs)
  assume "match_marker U s = Some (name, rest)"
  with Cons have c: "c = 123" and n: "name = takeWhile (isword U) cs"
    and d: "dropWhile (isword U) cs = 125 # rest"
    by (auto split: if_splits list.splits)
  have "cs = takeWhile (isword U) cs @ dropWhile (isword U) cs" by simp
  with n d have "cs = name @ 125 # rest" by simp
  with Cons c show "s = 123 # name @ 125 # rest" by simp
qed

lemma concat_source_scan: "concat (map source (scan U s)) = s"
proof (induction U s rule: scan.induct)
  case (1 U)
  show ?case by simp
next
  case (2 U c cs)
  show ?case
  proof (cases "match_marker U (c # cs)")
    case None
    with 2 show ?thesis by simp
  next
    case (Some m)
    obtain name rest where m: "m = (name, rest)" by (cases m)
    with Some have mm: "match_marker U (c # cs) = Some (name, rest)" by simp
    then have src: "c # cs = 123 # name @ 125 # rest" by (rule match_marker_source)
    have "concat (map source (scan U rest)) = rest" by (rule 2(2) [OF mm refl])
    then have "concat (map source (Marker name # scan U rest)) = c # cs"
      using src by simp
    moreover have "scan U (c # cs) = Marker name # scan U rest"
      by (subst scan.simps) (simp only: mm option.case prod.case)
    ultimately show ?thesis by simp
  qed
qed

lemma scan_without_brace: "123 \<notin> set s \<Longrightarrow> scan U s = map Lit s"
  by (induction s) auto

lemma findall_without_brace: "123 \<notin> set s \<Longrightarrow> findall U s = []"
  by (simp add: findall_def scan_without_brace)

lemma marker_in_findall: "Marker name \<in> set (scan U s) \<Longrightarrow> name \<in> set (findall U s)"
  by (force simp: findall_def)

lemma repl_present: "name \<in> fst ` set ps \<Longrightarrow> repl ps name = py_str (dict_get ps name)"
  by (auto simp: repl_def dict_get_def map_of_eq_None_iff split: option.splits)

text \<open>
  C2, as stated, fails, and fails because the substitution is textual: what is put in is
  not scanned again, and neither is the text around it. In the template \<open>{{a}}\<close> the
  only marker is \<open>{a}\<close>, it has a key, and filling it with \<open>b\<close> gives \<open>{b}\<close>, in which
  the pattern finds a marker.
\<close>

theorem fill_leaves_marker_counterexample:
  "find_placeholders ascii_tables (lit ''{{a}}'') = [lit ''a'']
   \<and> load_and_fill_prompt ascii_tables (\<lambda>folder kind. Some (lit ''{{a}}'')) [] []
         [(lit ''a'', PyStr (lit ''b''))] = Inr (lit ''{b}'')
   \<and> findall ascii_tables (lit ''{b}'') = [lit ''b'']"
  by (simp add: load_and_fill_prompt_def find_placeholders_def findall_def re_sub_def repl_def
      isword_def ascii_tables_def lit_def)

text \<open>
  C2, amended. When every marker of the template has a key, filling succeeds and is
  purely textual: the template is the concatenation of its tokens, found from left to
  right, the filled prompt is the same concatenation with \<open>str\<close> of the value in place of
  each marker and every other character kept, and no value is scanned again. The filled
  prompt has no marker left whenever no opening brace stands outside the markers of the
  template or in the string form of a value put in.
\<close>

theorem fill_is_textual:
  assumes "prompts folder kind = Some raw"
    and "\<forall>name \<in> set (findall U raw). name \<in> fst ` set ps"
  shows "load_and_fill_prompt U prompts folder kind ps = Inr (re_sub U ps raw)
   \<and> raw = concat (map source (scan U raw))
   \<and> re_sub U ps raw
       = concat (map (\<lambda>t. case t of Lit c \<Rightarrow> [c] | Marker name \<Rightarrow> py_str (dict_get ps name))
                   (scan U raw))
   \<and> ((\<forall>t \<in> set (scan U raw). t \<noteq> Lit 123)
        \<and> (\<forall>name \<in> set (findall U raw). 123 \<notin> set (py_str (dict_get ps name)))
        \<longrightarrow> findall U (re_sub U ps raw) = [])"
proof (intro conjI impI)
  from assms(2) have "filter (\<lambda>p. map_of ps p = None) (find_placeholders U raw) = []"
    by (auto simp: filter_empty_conv set_find_placeholders map_of_eq_None_iff)
  with assms(1) show "load_and_fill_prompt U prompts folder kind ps = Inr (re_sub U ps raw)"
    by (simp add: load_and_fill_prompt_def)
  show "raw = concat (map source (scan U raw))"
    by (simp add: concat_source_scan)
  have same: "(case t of Lit c \<Rightarrow> [c] | Marker name \<Rightarrow> repl ps name)
        = (case t of Lit c \<Rightarrow> [c] | Marker name \<Rightarrow> py_str (dict_get ps name))"
    if "t \<in> set (scan U raw)" for t
  proof (cases t)
    case (Lit c)
    then show ?thesis by simp
  next
    case (Marker name)
    with that have "name \<in> set (findall U raw)" by (simp add: marker_in_findall)
    with assms(2) have "name \<in> fst ` set ps" by blast
    with Marker show ?thesis by (simp add: repl_present)
  qed
  then show filled: "re_sub U ps raw
       = concat (map (\<lambda>t. case t of Lit c \<Rightarrow> [c] | Marker name \<Rightarrow> py_str (dict_get ps name))
                   (scan U raw))"
    unfolding re_sub_def by (intro arg_cong [where f = concat] map_cong) simp_all
  assume clean: "(\<forall>t \<in> set (scan U raw). t \<noteq> Lit 123)
        \<and> (\<forall>name \<in> set (findall U raw). 123 \<notin> set (py_str (dict_get ps name)))"
  have "123 \<notin> set (case t of Lit c \<Rightarrow> [c] | Marker name \<Rightarrow> py_str (dict_get ps name))"
    if "t \<in> set (scan U raw)" for t
  proof (cases t)
    case (Lit c)
    with that clean show ?thesis by auto
  next
    case (Marker name)
    with that have "name \<in> set (findall U raw)" by (simp add: marker_in_findall)
    with clean Marker show ?thesis by simp
  qed
  then have "123 \<notin> set (re_sub U ps raw)"
    unfolding filled by auto
  then show "findall U (re_sub U ps raw) = []"
    by (rule findall_without_brace)
qed

theorem fill_is_textual_witness:
  "load_and_fill_prompt ascii_tables (\<lambda>folder kind. Some (lit ''List {n} words.'')) [] []
      [(lit ''n'', PyInt 3)] = Inr (lit ''List 3 words.'')
   \<and> findall ascii_tables (lit ''List 3 words.'') = []"
proof -
  let ?raw = "lit ''List {n} words.''"
  let ?ps = "[(lit ''n'', PyInt 3)]"
  have sc: "scan ascii_tables ?raw
      = map Lit (lit ''List '') @ [Marker (lit ''n'')] @ map Lit (lit '' words.'')"
    by (simp add: isword_def ascii_tables_def lit_def)
  have h1: "(\<lambda>folder kind. Some ?raw) [] [] = Some ?raw" by simp
  have h2: "\<forall>name \<in> set (findall ascii_tables ?raw). name \<in> fst ` set ?ps"
    unfolding findall_def sc by (simp add: lit_def)
  have h3: "\<forall>t \<in> set (scan ascii_tables ?raw). t \<noteq> Lit 123"
    unfolding sc by (simp add: lit_def)
  have h4: "\<forall>name \<in> set (findall ascii_tables ?raw). 123 \<notin> set (py_str (dict_get ?ps name))"
    unfolding findall_def sc by (simp add: lit_def dict_get_def)
  have v: "re_sub ascii_tables ?ps ?raw = lit ''List 3 words.''"
    unfolding re_sub_def sc by (simp add: lit_def repl_def)
  from fill_is_textual [of "\<lambda>folder kind. Some ?raw" "[]" "[]" ?raw ascii_tables ?ps, OF h1 h2]
    h3 h4
  have "load_and_fill_prompt ascii_tables (\<lambda>folder kind. Some ?raw) [] [] ?ps
          = Inr (re_sub ascii_tables ?ps ?raw)"
    and "findall ascii_tables (re_sub ascii_tables ?ps ?raw) = []"
    by blast+
  then show ?thesis unfolding v by simp
qed

text \<open>
  C4. When the template has a marker without a key, \<open>_load_and_fill_prompt\<close> raises
  the \<open>ValueError\<close> whose message lists the missing names, which are exactly the
  markers of the template without a key, each once, and the keys supplied; \<open>run\<close>
  raises it before the loop: nothing is returned and no call has been made.
\<close>

theorem missing_placeholder_aborts:
  assumes "prompts_dir self (task_folder a) (prompt_type a) = Some raw"
    and "\<exists>name \<in> set (findall U raw). name \<notin> fst ` set (placeholders a)"
  shows "\<exists>missing.
      load_and_fill_prompt U (prompts_dir self) (task_folder a) (prompt_type a) (placeholders a)
        = Inl (ValueError missing (map fst (placeholders a)))
      \<and> set missing = {name \<in> set (findall U raw). name \<notin> fst ` set (placeholders a)}
      \<and> distinct missing
      \<and> run U self a = (Inl (ValueError missing (map fst (placeholders a))), [])"
proof -
  let ?missing = "filter (\<lambda>p. map_of (placeholders a) p = None) (find_placeholders U raw)"
  have s: "set ?missing = {name \<in> set (findall U raw). name \<notin> fst ` set (placeholders a)}"
    by (auto simp: set_find_placeholders map_of_eq_None_iff)
  with assms(2) have "?missing \<noteq> []" by (metis (mono_tags, lifting) empty_iff empty_set mem_Collect_eq)
  with assms(1) have l: "load_and_fill_prompt U (prompts_dir self) (task_folder a) (prompt_type a)
      (placeholders a) = Inl (ValueError ?missing (map fst (placeholders a)))"
    by (simp add: load_and_fill_prompt_def Let_def)
  have d: "distinct ?missing"
    by (simp add: find_placeholders_def distinct_fromkeys)
  from l have "run U self a = (Inl (ValueError ?missing (map fst (placeholders a))), [])"
    by (simp add: run_def)
  with l s d show ?thesis by blast
qed

theorem missing_placeholder_aborts_witness:
  "\<exists>missing.
     run ascii_tables
       \<lparr> generate = (\<lambda>prompt temp tokens n. Inr (lit ''rain: wet'')),
         prompts_dir = (\<lambda>folder kind. Some (lit ''{n} words on {topic}'')) \<rparr>
       \<lparr> task_folder = lit ''lexicon_generating'', prompt_type = lit ''base'',
         placeholders = [(lit ''n'', PyInt 3)], target_count = 5, temperature = (),
         max_tokens = 500, progress_callback = None, max_batches = 3 \<rparr>
       = (Inl (ValueError missing [lit ''n'']), [])
     \<and> set missing = {lit ''topic''}"
proof -
  let ?raw = "lit ''{n} words on {topic}''"
  let ?self = "\<lparr> generate = (\<lambda>prompt (temp::unit) (tokens::int) (n::nat). Inr (lit ''rain: wet'')),
         prompts_dir = (\<lambda>folder kind. Some ?raw) \<rparr> :: unit llm_task"
  let ?a = "\<lparr> task_folder = lit ''lexicon_generating'', prompt_type = lit ''base'',
         placeholders = [(lit ''n'', PyInt 3)], target_count = 5, temperature = (),
         max_tokens = 500, progress_callback = None, max_batches = 3 \<rparr>"
  have f: "findall ascii_tables ?raw = [lit ''n'', lit ''topic'']"
    by (simp add: findall_def isword_def ascii_tables_def lit_def)
  have h1: "prompts_dir ?self (task_folder ?a) (prompt_type ?a) = Some ?raw" by simp
  have h2: "\<exists>name \<in> set (findall ascii_tables ?raw). name \<notin> fst ` set (placeholders ?a)"
    unfolding f by (simp add: lit_def)
  have e: "{name \<in> set (findall ascii_tables ?raw). name \<notin> fst ` set (placeholders ?a)}
      = {lit ''topic''}"
    unfolding f by (auto simp: lit_def)
  from missing_placeholder_aborts [of ?self ?a ?raw ascii_tables, OF h1 h2]
  obtain missing where
    r: "run ascii_tables ?self ?a = (Inl (ValueError missing (map fst (placeholders ?a))), [])"
    and m: "set missing
      = {name \<in> set (findall ascii_tables ?raw). name \<notin> fst ` set (placeholders ?a)}"
    by blast
  from r have "run ascii_tables ?self ?a = (Inl (ValueError missing [lit ''n'']), [])" by simp
  moreover from m have "set missing = {lit ''topic''}" unfolding e .
  ultimately show ?thesis by blast
qed

section \<open>Claims on the batch loop\<close>

lemma slice_to_Nil: "slice_to n [] = []"
  by (simp add: slice_to_def)

text \<open>
  C10. With a target count or a batch limit of zero or less the loop body is never
  entered: once the prompt is loaded and filled, \<open>run\<close> returns the empty list and has
  called neither the client nor the parser nor the callback; an error of the prompt
  step is raised as usual.
\<close>

theorem run_without_batches:
  assumes "target_count a \<le> 0 \<or> max_batches a \<le> 0"
  shows "run U self a =
     (case load_and_fill_prompt U (prompts_dir self) (task_folder a) (prompt_type a)
             (placeholders a) of
        Inl e \<Rightarrow> (Inl e, [])
      | Inr prompt \<Rightarrow> (Inr [], []))"
proof -
  have "run_loop U self a prompt [] 0 [] = (Inr [], [])" for prompt
    using assms by (subst run_loop.simps) (auto simp: slice_to_Nil)
  then show ?thesis by (simp add: run_def split: sum.splits)
qed

theorem run_without_batches_witness:
  "run ascii_tables
     \<lparr> generate = (\<lambda>prompt temp tokens n. Inr (lit ''rain: wet'')),
       prompts_dir = (\<lambda>folder kind. Some (lit ''{n} words'')) \<rparr>
     \<lparr> task_folder = lit ''lexicon_generating'', prompt_type = lit ''base'',
       placeholders = [(lit ''n'', PyInt 3)], target_count = 0, temperature = (),
       max_tokens = 500, progress_callback = Some (\<lambda>done total n. None), max_batches = 3 \<rparr>
     = (Inr [], [])
   \<and> run ascii_tables
     \<lparr> generate = (\<lambda>prompt temp tokens n. Inr (lit ''rain: wet'')),
       prompts_dir = (\<lambda>folder kind. Some (lit ''{n} words'')) \<rparr>
     \<lparr> task_folder = lit ''lexicon_generating'', prompt_type = lit ''base'',
       placeholders = [], target_count = 5, temperature = (),
       max_tokens = 500, progress_callback = None, max_batches = - 1 \<rparr>
     = (Inl (ValueError [lit ''n''] []), [])"
proof -
  let ?self = "\<lparr> generate = (\<lambda>prompt (temp::unit) (tokens::int) (n::nat). Inr (lit ''rain: wet'')),
       prompts_dir = (\<lambda>folder kind. Some (lit ''{n} words'')) \<rparr> :: unit llm_task"
  let ?a = "\<lparr> task_folder = lit ''lexicon_generating'', prompt_type = lit ''base'',
       placeholders = [(lit ''n'', PyInt 3)], target_count = 0, temperature = (),
       max_tokens = 500, progress_callback = Some (\<lambda>done total n. None), max_batches = 3 \<rparr>"
  let ?b = "\<lparr> task_folder = lit ''lexicon_generating'', prompt_type = lit ''base'',
       placeholders = [], target_count = 5, temperature = (),
       max_tokens = 500, progress_callback = None, max_batches = - 1 \<rparr>"
  have la: "load_and_fill_prompt ascii_tables (prompts_dir ?self) (task_folder ?a) (prompt_type ?a)
      (placeholders ?a) = Inr (lit ''3 words'')"
    by (simp add: load_and_fill_prompt_def find_placeholders_def findall_def re_sub_def repl_def
        isword_def ascii_tables_def lit_def)
  have lb: "load_and_fill_prompt ascii_tables (prompts_dir ?self) (task_folder ?b) (prompt_type ?b)
      (placeholders ?b) = Inl (ValueError [lit ''n''] [])"
    by (simp add: load_and_fill_prompt_def find_placeholders_def findall_def
        isword_def ascii_tables_def lit_def)
  have ha: "target_count ?a \<le> 0 \<or> max_batches ?a \<le> 0" by simp
  have hb: "target_count ?b \<le> 0 \<or> max_batches ?b \<le> 0" by simp
  from run_without_batches [of ?a ascii_tables ?self, OF ha]
    run_without_batches [of ?b ascii_tables ?self, OF hb]
  show ?thesis unfolding la lb by simp
qed

text \<open>One turn of the loop, case by case.\<close>

lemma run_loop_stop:
  assumes "\<not> (int (length collected) < target_count a \<and> int batch_count < max_batches a)"
  shows "run_loop U self a prompt collected batch_count calls
           = (Inr (slice_to (target_count a) collected), calls)"
  by (subst run_loop.simps) (simp only: assms if_False)

lemma run_loop_generate_exception:
  assumes "int (length collected) < target_count a" "int batch_count < max_batches a"
    and "generate self prompt (temperature a) (max_tokens a) (Suc batch_count) = Inl (Exception e)"
  shows "run_loop U self a prompt collected batch_count calls
           = (Inr (slice_to (target_count a) collected),
              calls @ [Generate prompt (temperature a) (max_tokens a)])"
  using assms by (subst run_loop.simps) simp

lemma run_loop_generate_uncaught:
  assumes "int (length collected) < target_count a" "int batch_count < max_batches a"
    and "generate self prompt (temperature a) (max_tokens a) (Suc batch_count)
           = Inl (BaseException e)"
  shows "run_loop U self a prompt collected batch_count calls
           = (Inl (Uncaught (BaseException e)),
              calls @ [Generate prompt (temperature a) (max_tokens a)])"
  using assms by (subst run_loop.simps) simp

lemma run_loop_no_items:
  assumes "int (length collected) < target_count a" "int batch_count < max_batches a"
    and "generate self prompt (temperature a) (max_tokens a) (Suc batch_count) = Inr response"
    and "parse_response_by_task U response (task_folder a) (placeholders a) = []"
  shows "run_loop U self a prompt collected batch_count calls
           = (Inr (slice_to (target_count a) collected),
              calls @ [Generate prompt (temperature a) (max_tokens a), Parse response])"
  using assms by (subst run_loop.simps) simp

lemma run_loop_batch_no_callback:
  assumes "int (length collected) < target_count a" "int batch_count < max_batches a"
    and "generate self prompt (temperature a) (max_tokens a) (Suc batch_count) = Inr response"
    and "parse_response_by_task U response (task_folder a) (placeholders a) = batch_items"
    and "batch_items \<noteq> []"
    and "progress_callback a = None"
  shows "run_loop U self a prompt collected batch_count calls
           = run_loop U self a prompt (collected @ batch_items) (Suc batch_count)
               (calls @ [Generate prompt (temperature a) (max_tokens a), Parse response])"
  using assms by (subst run_loop.simps) (simp split: list.splits)

lemma run_loop_batch_callback:
  assumes "int (length collected) < target_count a" "int batch_count < max_batches a"
    and "generate self prompt (temperature a) (max_tokens a) (Suc batch_count) = Inr response"
    and "parse_response_by_task U response (task_folder a) (placeholders a) = batch_items"
    and "batch_items \<noteq> []"
    and "progress_callback a = Some callback"
    and "\<forall>e. callback (min (int (length (collected @ batch_items))) (target_count a))
               (target_count a) (Suc batch_count) \<noteq> Some (BaseException e)"
  shows "run_loop U self a prompt collected batch_count calls
           = run_loop U self a prompt (collected @ batch_items) (Suc batch_count)
               (calls @ [Generate prompt (temperature a) (max_tokens a), Parse response,
                         Progress (min (int (length (collected @ batch_items))) (target_count a))
                           (target_count a)])"
proof (cases batch_items)
  case Nil
  with assms show ?thesis by simp
next
  case (Cons item items)
  with assms show ?thesis
    by (subst run_loop.simps) (auto split: option.splits raised.splits)
qed

lemma run_loop_callback_uncaught:
  assumes "int (length collected) < target_count a" "int batch_count < max_batches a"
    and "generate self prompt (temperature a) (max_tokens a) (Suc batch_count) = Inr response"
    and "parse_response_by_task U response (task_folder a) (placeholders a) = batch_items"
    and "batch_items \<noteq> []"
    and "progress_callback a = Some callback"
    and "callback (min (int (length (collected @ batch_items))) (target_count a))
               (target_count a) (Suc batch_count) = Some (BaseException e)"
  shows "run_loop U self a prompt collected batch_count calls
           = (Inl (Uncaught (BaseException e)),
              calls @ [Generate prompt (temperature a) (max_tokens a), Parse response,
                       Progress (min (int (length (collected @ batch_items))) (target_count a))
                         (target_count a)])"
proof (cases batch_items)
  case Nil
  with assms show ?thesis by simp
next
  case (Cons item items)
  with assms show ?thesis
    by (subst run_loop.simps) auto
qed

lemma run_loop_cases [case_names stop exception uncaught no_items callback_uncaught batch]:
  fixes U self a prompt collected batch_count calls
  defines "result \<equiv> run_loop U self a prompt collected batch_count calls"
    and "outcome \<equiv> generate self prompt (temperature a) (max_tokens a) (Suc batch_count)"
  obtains
    "\<not> (int (length collected) < target_count a \<and> int batch_count < max_batches a)"
      "result = (Inr (slice_to (target_count a) collected), calls)"
  | e where "int (length collected) < target_count a" "int batch_count < max_batches a"
      "outcome = Inl (Exception e)"
      "result = (Inr (slice_to (target_count a) collected),
                 calls @ [Generate prompt (temperature a) (max_tokens a)])"
  | e where "int (length collected) < target_count a" "int batch_count < max_batches a"
      "outcome = Inl (BaseException e)"
      "result = (Inl (Uncaught (BaseException e)),
                 calls @ [Generate prompt (temperature a) (max_tokens a)])"
  | response where "int (length collected) < target_count a" "int batch_count < max_batches a"
      "outcome = Inr response"
      "parse_response_by_task U response (task_folder a) (placeholders a) = []"
      "result = (Inr (slice_to (target_count a) collected),
                 calls @ [Generate prompt (temperature a) (max_tokens a), Parse response])"
  | response batch_items callback e where
      "int (length collected) < target_count a" "int batch_count < max_batches a"
      "outcome = Inr response"
      "parse_response_by_task U response (task_folder a) (placeholders a) = batch_items"
      "batch_items \<noteq> []"
      "progress_callback a = Some callback"
      "callback (min (int (length (collected @ batch_items))) (target_count a))
         (target_count a) (Suc batch_count) = Some (BaseException e)"
      "result = (Inl (Uncaught (BaseException e)),
                 calls @ batch_calls a prompt response (length (collected @ batch_items)))"
  | response batch_items where
      "int (length collected) < target_count a" "int batch_count < max_batches a"
      "outcome = Inr response"
      "parse_response_by_task U response (task_folder a) (placeholders a) = batch_items"
      "batch_items \<noteq> []"
      "\<forall>callback e. progress_callback a = Some callback \<longrightarrow>
         callback (min (int (length (collected @ batch_items))) (target_count a))
           (target_count a) (Suc batch_count) \<noteq> Some (BaseException e)"
      "result = run_loop U self a prompt (collected @ batch_items) (Suc batch_count)
                  (calls @ batch_calls a prompt response (length (collected @ batch_items)))"
proof (cases "int (length collected) < target_count a \<and> int batch_count < max_batches a")
  case False
  then show ?thesis using that(1) run_loop_stop unfolding result_def by blast
next
  case True
  then have c1: "int (length collected) < target_count a"
    and c2: "int batch_count < max_batches a" by simp_all
  show ?thesis
  proof (cases outcome)
    case (Inl r)
    show ?thesis
    proof (cases r)
      case (Exception e)
      with Inl have g: "outcome = Inl (Exception e)" by simp
      from g have "result = (Inr (slice_to (target_count a) collected),
                 calls @ [Generate prompt (temperature a) (max_tokens a)])"
        unfolding result_def outcome_def by (rule run_loop_generate_exception [OF c1 c2])
      with c1 c2 g show ?thesis by (rule that(2))
    next
      case (BaseException e)
      with Inl have g: "outcome = Inl (BaseException e)" by simp
      from g have "result = (Inl (Uncaught (BaseException e)),
                 calls @ [Generate prompt (temperature a) (max_tokens a)])"
        unfolding result_def outcome_def by (rule run_loop_generate_uncaught [OF c1 c2])
      with c1 c2 g show ?thesis by (rule that(3))
    qed
  next
    case g: (Inr response)
    then have g': "generate self prompt (temperature a) (max_tokens a) (Suc batch_count)
        = Inr response"
      unfolding outcome_def .
    obtain batch_items
      where bi: "parse_response_by_task U response (task_folder a) (placeholders a) = batch_items"
      by simp
    show ?thesis
    proof (cases "batch_items = []")
      case True
      with bi have e: "parse_response_by_task U response (task_folder a) (placeholders a) = []"
        by simp
      have "result = (Inr (slice_to (target_count a) collected),
                 calls @ [Generate prompt (temperature a) (max_tokens a), Parse response])"
        unfolding result_def by (rule run_loop_no_items [OF c1 c2 g' e])
      with c1 c2 g e show ?thesis by (rule that(4))
    next
      case items: False
      show ?thesis
      proof (cases "progress_callback a")
        case None
        have "result = run_loop U self a prompt (collected @ batch_items) (Suc batch_count)
            (calls @ [Generate prompt (temperature a) (max_tokens a), Parse response])"
          unfolding result_def by (rule run_loop_batch_no_callback [OF c1 c2 g' bi items None])
        then have r: "result
            = run_loop U self a prompt (collected @ batch_items) (Suc batch_count)
                (calls @ batch_calls a prompt response (length (collected @ batch_items)))"
          by (simp add: batch_calls_def None)
        have ok: "\<forall>callback e. progress_callback a = Some callback \<longrightarrow>
           callback (min (int (length (collected @ batch_items))) (target_count a))
             (target_count a) (Suc batch_count) \<noteq> Some (BaseException e)"
          by (simp add: None)
        from c1 c2 g bi items ok r show ?thesis by (rule that(6))
      next
        case (Some callback)
        show ?thesis
        proof (cases "\<exists>e. callback (min (int (length (collected @ batch_items))) (target_count a))
                 (target_count a) (Suc batch_count) = Some (BaseException e)")
          case True
          then obtain e where e: "callback (min (int (length (collected @ batch_items)))
              (target_count a)) (target_count a) (Suc batch_count) = Some (BaseException e)"
            by blast
          have "result = (Inl (Uncaught (BaseException e)),
              calls @ [Generate prompt (temperature a) (max_tokens a), Parse response,
                       Progress (min (int (length (collected @ batch_items))) (target_count a))
                         (target_count a)])"
            unfolding result_def
            by (rule run_loop_callback_uncaught [OF c1 c2 g' bi items Some e])
          then have r: "result = (Inl (Uncaught (BaseException e)),
              calls @ batch_calls a prompt response (length (collected @ batch_items)))"
            by (simp add: batch_calls_def Some)
          from c1 c2 g bi items Some e r show ?thesis by (rule that(5))
        next
          case False
          then have ok: "\<forall>e. callback (min (int (length (collected @ batch_items)))
              (target_count a)) (target_count a) (Suc batch_count) \<noteq> Some (BaseException e)"
            by blast
          have "result = run_loop U self a prompt (collected @ batch_items) (Suc batch_count)
              (calls @ [Generate prompt (temperature a) (max_tokens a), Parse response,
                        Progress (min (int (length (collected @ batch_items))) (target_count a))
                          (target_count a)])"
            unfolding result_def
            by (rule run_loop_batch_callback [OF c1 c2 g' bi items Some ok])
          then have r: "result
              = run_loop U self a prompt (collected @ batch_items) (Suc batch_count)
                  (calls @ batch_calls a prompt response (length (collected @ batch_items)))"
            by (simp add: batch_calls_def Some)
          from ok Some have ok': "\<forall>callback e. progress_callback a = Some callback \<longrightarrow>
             callback (min (int (length (collected @ batch_items))) (target_count a))
               (target_count a) (Suc batch_count) \<noteq> Some (BaseException e)"
            by simp
          from c1 c2 g bi items ok' r show ?thesis by (rule that(6))
        qed
      qed
    qed
  qed
qed

lemma length_slice_to:
  "0 \<le> n \<or> xs = [] \<Longrightarrow> int (length (slice_to n xs)) \<le> max 0 n"
  by (auto simp: slice_to_def)

lemma generate_count_batch_calls:
  "length (filter is_generate (batch_calls a prompt response n)) = 1"
  by (simp add: batch_calls_def split: option.splits)

lemma run_loop_bounds:
  assumes "run_loop U self a prompt collected batch_count calls = (res, calls')"
    and "0 \<le> target_count a \<or> collected = []"
  shows "(\<forall>records. res = Inr records \<longrightarrow> int (length records) \<le> max 0 (target_count a))
     \<and> int (length (filter is_generate calls'))
         \<le> int (length (filter is_generate calls)) + max 0 (max_batches a - int batch_count)"
  using assms
proof (induction "nat (max_batches a) - batch_count" arbitrary: collected batch_count calls
    rule: less_induct)
  case less
  have len: "int (length (slice_to (target_count a) collected)) \<le> max 0 (target_count a)"
    using less.prems(2) by (rule length_slice_to)
  show ?case
  proof (cases rule: run_loop_cases [of collected a batch_count U self prompt calls])
    case stop
    with less.prems(1) len show ?thesis by auto
  next
    case (exception e)
    with less.prems(1) len show ?thesis by auto
  next
    case (uncaught e)
    with less.prems(1) show ?thesis by auto
  next
    case (no_items response)
    with less.prems(1) len show ?thesis by auto
  next
    case (callback_uncaught response batch_items callback e)
    with less.prems(1) show ?thesis by (auto simp: generate_count_batch_calls)
  next
    case (batch response batch_items)
    let ?calls = "calls @ batch_calls a prompt response (length (collected @ batch_items))"
    from batch(2) have d: "nat (max_batches a) - Suc batch_count < nat (max_batches a) - batch_count"
      by linarith
    from batch(7) less.prems(1)
    have r: "run_loop U self a prompt (collected @ batch_items) (Suc batch_count) ?calls
               = (res, calls')" by simp
    from batch(1) have t: "0 \<le> target_count a \<or> collected @ batch_items = []" by linarith
    from less.hyps [OF d r t] batch(2) show ?thesis
      by (auto simp: generate_count_batch_calls)
  qed
qed

text \<open>
  C1, as stated, fails for a negative target count: the loop is not entered, \<open>run\<close>
  returns the empty list, and its length 0 is not at most \<open>target_count = -1\<close>.
\<close>

theorem run_length_counterexample:
  "run ascii_tables
     \<lparr> generate = (\<lambda>prompt temp tokens n. Inr (lit ''rain: wet'')),
       prompts_dir = (\<lambda>folder kind. Some (lit ''words'')) \<rparr>
     \<lparr> task_folder = lit ''lexicon_generating'', prompt_type = lit ''base'',
       placeholders = [], target_count = - 1, temperature = (),
       max_tokens = 500, progress_callback = None, max_batches = 3 \<rparr>
     = (Inr [], [])
   \<and> \<not> int (length ([] :: pydict list)) \<le> - 1"
proof -
  have "load_and_fill_prompt ascii_tables (\<lambda>folder kind. Some (lit ''words'')) 
      (lit ''lexicon_generating'') (lit ''base'') [] = Inr (lit ''words'')"
    by (simp add: load_and_fill_prompt_def find_placeholders_def findall_def re_sub_def
        isword_def ascii_tables_def lit_def)
  then show ?thesis
    by (simp add: run_def run_loop_stop slice_to_Nil)
qed

text \<open>
  C1, amended. For every call of \<open>run\<close> that returns, the list returned has at most
  \<open>max(0, target_count)\<close> records, so at most \<open>target_count\<close> when this is not negative;
  and whether \<open>run\<close> returns or raises, the client has been called at most
  \<open>max(0, max_batches)\<close> times.
\<close>

theorem run_bounds:
  assumes "run U self a = (res, calls)"
  shows "(\<forall>records. res = Inr records \<longrightarrow> int (length records) \<le> max 0 (target_count a))
     \<and> int (length (filter is_generate calls)) \<le> max 0 (max_batches a)"
proof (cases "load_and_fill_prompt U (prompts_dir self) (task_folder a) (prompt_type a)
    (placeholders a)")
  case (Inl e)
  with assms show ?thesis by (auto simp: run_def)
next
  case (Inr prompt)
  with assms have "run_loop U self a prompt [] 0 [] = (res, calls)" by (simp add: run_def)
  from run_loop_bounds [OF this] show ?thesis by simp
qed

lemma demo_parse:
  "parse_response_by_task ascii_tables (lit ''rain: wet'') (lit ''lexicon'') []
     = [[(lit ''key'', PyStr (lit ''rain'')), (lit ''value'', PyStr (lit ''wet''))]]"
  by (simp add: parse_response_by_task_def parse_generic_key_value_def lower_def
      splitlines_def standard_line_clean_def sub_bullets_def sub_numbers_def strip_def
      skip_line_def upper_def lit_def isspace_def isbullet_def ascii_tables_def islinebreak_def
      split_key_val_def separators_def strip_quotes_def strip_chars_def quote_chars_def)

lemma demo_load:
  "load_and_fill_prompt ascii_tables (\<lambda>folder kind. Some (lit ''words'')) folder kind []
     = Inr (lit ''words'')"
  by (simp add: load_and_fill_prompt_def find_placeholders_def findall_def
      re_sub_def isword_def ascii_tables_def lit_def)

theorem run_bounds_witness:
  "run ascii_tables (demo_task (lit ''rain: wet'')) (demo_args 1 3 None)
     = (Inr [[(lit ''key'', PyStr (lit ''rain'')), (lit ''value'', PyStr (lit ''wet''))]],
        [Generate (lit ''words'') () 500, Parse (lit ''rain: wet'')])
   \<and> int (length [[(lit ''key'', PyStr (lit ''rain'')), (lit ''value'', PyStr (lit ''wet''))]])
       \<le> max 0 1
   \<and> int (length (filter is_generate
         [Generate (lit ''words'') () 500, Parse (lit ''rain: wet'')])) \<le> max 0 3"
proof -
  have r: "run ascii_tables (demo_task (lit ''rain: wet'')) (demo_args 1 3 None)
     = (Inr [[(lit ''key'', PyStr (lit ''rain'')), (lit ''value'', PyStr (lit ''wet''))]],
        [Generate (lit ''words'') () 500, Parse (lit ''rain: wet'')])"
    by (simp add: run_def demo_args_def demo_task_def demo_load run_loop.simps
        demo_parse slice_to_def)
  from run_bounds [OF r] r show ?thesis by (simp add: demo_args_def)
qed







lemma slice_to_short: "int (length xs) \<le> n \<Longrightarrow> slice_to n xs = xs"
  by (simp add: slice_to_def)

lemma run_loop_partial:
  assumes ok: "\<forall>i. batch_count < i \<and> i \<le> n \<longrightarrow>
        (\<exists>response. generate self prompt (temperature a) (max_tokens a) i = Inr response
           \<and> parse_response_by_task U response (task_folder a) (placeholders a) = items i
           \<and> items i \<noteq> [])"
    and cb: "\<forall>callback x y i e. progress_callback a = Some callback
               \<longrightarrow> callback x y i \<noteq> Some (BaseException e)"
    and limit: "int n < max_batches a"
    and short: "int (length (collected @ concat (map items [Suc batch_count..<Suc n])))
                  < target_count a"
    and fails: "(\<exists>e. generate self prompt (temperature a) (max_tokens a) (Suc n)
                       = Inl (Exception e))
         \<or> (\<exists>response. generate self prompt (temperature a) (max_tokens a) (Suc n) = Inr response
               \<and> parse_response_by_task U response (task_folder a) (placeholders a) = [])"
    and le: "batch_count \<le> n"
  shows "fst (run_loop U self a prompt collected batch_count calls)
           = Inr (collected @ concat (map items [Suc batch_count..<Suc n]))"
  using ok short le
proof (induction "n - batch_count" arbitrary: collected batch_count calls rule: less_induct)
  case less
  from less.prems(2) have c1: "int (length collected) < target_count a" by simp
  from less.prems(3) limit have c2: "int batch_count < max_batches a" by simp
  show ?case
  proof (cases "batch_count = n")
    case True
    with less.prems(2) have whole: "collected @ concat (map items [Suc batch_count..<Suc n])
        = collected" by simp
    from c1 have keep: "slice_to (target_count a) collected = collected"
      by (simp add: slice_to_short)
    from fails show ?thesis
    proof
      assume "\<exists>e. generate self prompt (temperature a) (max_tokens a) (Suc n)
                       = Inl (Exception e)"
      then obtain e where "generate self prompt (temperature a) (max_tokens a) (Suc batch_count)
          = Inl (Exception e)" using True by blast
      from run_loop_generate_exception [OF c1 c2 this] keep whole show ?thesis by simp
    next
      assume "\<exists>response. generate self prompt (temperature a) (max_tokens a) (Suc n) = Inr response
               \<and> parse_response_by_task U response (task_folder a) (placeholders a) = []"
      then obtain response
        where "generate self prompt (temperature a) (max_tokens a) (Suc batch_count) = Inr response"
          and "parse_response_by_task U response (task_folder a) (placeholders a) = []"
        using True by blast
      from run_loop_no_items [OF c1 c2 this] keep whole show ?thesis by simp
    qed
  next
    case False
    with less.prems(3) have lt: "batch_count < n" by simp
    then have d: "n - Suc batch_count < n - batch_count" by simp
    from lt have range: "[Suc batch_count..<Suc n] = Suc batch_count # [Suc (Suc batch_count)..<Suc n]"
      by (simp add: upt_conv_Cons)
    from less.prems(1) lt obtain response
      where g: "generate self prompt (temperature a) (max_tokens a) (Suc batch_count) = Inr response"
        and p: "parse_response_by_task U response (task_folder a) (placeholders a)
                  = items (Suc batch_count)"
        and ne: "items (Suc batch_count) \<noteq> []"
      by (metis Suc_leI lessI)
    have ok': "\<forall>i. Suc batch_count < i \<and> i \<le> n \<longrightarrow>
        (\<exists>response. generate self prompt (temperature a) (max_tokens a) i = Inr response
           \<and> parse_response_by_task U response (task_folder a) (placeholders a) = items i
           \<and> items i \<noteq> [])"
      using less.prems(1) by (simp add: Suc_lessD)
    have short': "int (length ((collected @ items (Suc batch_count))
        @ concat (map items [Suc (Suc batch_count)..<Suc n]))) < target_count a"
      using less.prems(2) unfolding range by simp
    from lt have le': "Suc batch_count \<le> n" by simp
    have step: "\<exists>calls'. run_loop U self a prompt collected batch_count calls
        = run_loop U self a prompt (collected @ items (Suc batch_count)) (Suc batch_count) calls'"
    proof (cases "progress_callback a")
      case None
      from run_loop_batch_no_callback [OF c1 c2 g p ne None] show ?thesis by blast
    next
      case (Some callback)
      with cb have "\<forall>e. callback
          (min (int (length (collected @ items (Suc batch_count)))) (target_count a))
          (target_count a) (Suc batch_count) \<noteq> Some (BaseException e)" by blast
      from run_loop_batch_callback [OF c1 c2 g p ne Some this] show ?thesis by blast
    qed
    then obtain calls' where "run_loop U self a prompt collected batch_count calls
        = run_loop U self a prompt (collected @ items (Suc batch_count)) (Suc batch_count) calls'"
      by blast
    with less.hyps [OF d ok' short' le', of calls'] show ?thesis
      unfolding range by simp
  qed
qed

text \<open>
  C3. In a turn of the loop in which the client raises an \<open>Exception\<close>, or its response
  parses to no record, the loop stops with no further call and \<open>run\<close> returns, without
  raising, the records collected before, cut to the target count. For a whole run: if
  the batches 1 to \<open>n\<close> each parse to records, fewer than the target count in all, more
  than \<open>n\<close> batches are allowed, and batch \<open>n + 1\<close> fails in one of the two ways, then
  \<open>run\<close> returns exactly the records of the batches 1 to \<open>n\<close>, in order; and if the very
  first call of the client raises, \<open>run\<close> returns the empty list.
\<close>

theorem run_stops_at_failed_batch:
  "(int (length collected) < target_count a \<and> int batch_count < max_batches a
      \<and> generate self prompt (temperature a) (max_tokens a) (Suc batch_count) = Inl (Exception e)
    \<longrightarrow> run_loop U self a prompt collected batch_count calls
          = (Inr (slice_to (target_count a) collected),
             calls @ [Generate prompt (temperature a) (max_tokens a)]))
   \<and> (int (length collected) < target_count a \<and> int batch_count < max_batches a
      \<and> generate self prompt (temperature a) (max_tokens a) (Suc batch_count) = Inr response
      \<and> parse_response_by_task U response (task_folder a) (placeholders a) = []
    \<longrightarrow> run_loop U self a prompt collected batch_count calls
          = (Inr (slice_to (target_count a) collected),
             calls @ [Generate prompt (temperature a) (max_tokens a), Parse response]))
   \<and> (load_and_fill_prompt U (prompts_dir self) (task_folder a) (prompt_type a) (placeholders a)
        = Inr prompt
      \<and> (\<forall>i. 0 < i \<and> i \<le> n \<longrightarrow>
            (\<exists>r. generate self prompt (temperature a) (max_tokens a) i = Inr r
               \<and> parse_response_by_task U r (task_folder a) (placeholders a) = items i
               \<and> items i \<noteq> []))
      \<and> (\<forall>callback x y i e'. progress_callback a = Some callback
            \<longrightarrow> callback x y i \<noteq> Some (BaseException e'))
      \<and> int n < max_batches a
      \<and> int (length (concat (map items [1..<Suc n]))) < target_count a
      \<and> ((\<exists>e'. generate self prompt (temperature a) (max_tokens a) (Suc n) = Inl (Exception e'))
          \<or> (\<exists>r. generate self prompt (temperature a) (max_tokens a) (Suc n) = Inr r
                \<and> parse_response_by_task U r (task_folder a) (placeholders a) = []))
    \<longrightarrow> fst (run U self a) = Inr (concat (map items [1..<Suc n])))
   \<and> (load_and_fill_prompt U (prompts_dir self) (task_folder a) (prompt_type a) (placeholders a)
        = Inr prompt
      \<and> generate self prompt (temperature a) (max_tokens a) 1 = Inl (Exception e)
    \<longrightarrow> fst (run U self a) = Inr [])"
proof (intro conjI impI)
  assume "int (length collected) < target_count a \<and> int batch_count < max_batches a
      \<and> generate self prompt (temperature a) (max_tokens a) (Suc batch_count) = Inl (Exception e)"
  then show "run_loop U self a prompt collected batch_count calls
          = (Inr (slice_to (target_count a) collected),
             calls @ [Generate prompt (temperature a) (max_tokens a)])"
    by (simp add: run_loop_generate_exception)
next
  assume "int (length collected) < target_count a \<and> int batch_count < max_batches a
      \<and> generate self prompt (temperature a) (max_tokens a) (Suc batch_count) = Inr response
      \<and> parse_response_by_task U response (task_folder a) (placeholders a) = []"
  then show "run_loop U self a prompt collected batch_count calls
          = (Inr (slice_to (target_count a) collected),
             calls @ [Generate prompt (temperature a) (max_tokens a), Parse response])"
    by (simp add: run_loop_no_items)
next
  assume h: "load_and_fill_prompt U (prompts_dir self) (task_folder a) (prompt_type a) (placeholders a)
        = Inr prompt
      \<and> (\<forall>i. 0 < i \<and> i \<le> n \<longrightarrow>
            (\<exists>r. generate self prompt (temperature a) (max_tokens a) i = Inr r
               \<and> parse_response_by_task U r (task_folder a) (placeholders a) = items i
               \<and> items i \<noteq> []))
      \<and> (\<forall>callback x y i e'. progress_callback a = Some callback
            \<longrightarrow> callback x y i \<noteq> Some (BaseException e'))
      \<and> int n < max_batches a
      \<and> int (length (concat (map items [1..<Suc n]))) < target_count a
      \<and> ((\<exists>e'. generate self prompt (temperature a) (max_tokens a) (Suc n) = Inl (Exception e'))
          \<or> (\<exists>r. generate self prompt (temperature a) (max_tokens a) (Suc n) = Inr r
                \<and> parse_response_by_task U r (task_folder a) (placeholders a) = []))"
  then have "fst (run_loop U self a prompt [] 0 []) = Inr ([] @ concat (map items [Suc 0..<Suc n]))"
    by (intro run_loop_partial) simp_all
  with h show "fst (run U self a) = Inr (concat (map items [1..<Suc n]))"
    by (simp add: run_def)
next
  assume h: "load_and_fill_prompt U (prompts_dir self) (task_folder a) (prompt_type a) (placeholders a)
        = Inr prompt
      \<and> generate self prompt (temperature a) (max_tokens a) 1 = Inl (Exception e)"
  have "fst (run_loop U self a prompt [] 0 []) = Inr []"
  proof (cases "int (length ([] :: pydict list)) < target_count a \<and> int (0::nat) < max_batches a")
    case True
    with h show ?thesis
      using run_loop_generate_exception [of "[]" a 0 self prompt e U "[]"]
      by (simp add: slice_to_Nil)
  next
    case False
    then show ?thesis
      using run_loop_stop [of "[]" a 0 U self prompt "[]"] by (simp add: slice_to_Nil)
  qed
  with h show "fst (run U self a) = Inr []" by (simp add: run_def)
qed

theorem run_stops_at_failed_batch_witness:
  "fst (run ascii_tables
          \<lparr> generate = (\<lambda>prompt temp tokens n.
               if n = 1 then Inr (lit ''rain: wet'') else Inl (Exception (lit ''backend down''))),
            prompts_dir = (\<lambda>folder kind. Some (lit ''words'')) \<rparr>
          (demo_args 5 3 None))
     = Inr [[(lit ''key'', PyStr (lit ''rain'')), (lit ''value'', PyStr (lit ''wet''))]]
   \<and> fst (run ascii_tables
          \<lparr> generate = (\<lambda>prompt temp tokens n. Inl (Exception (lit ''backend down''))),
            prompts_dir = (\<lambda>folder kind. Some (lit ''words'')) \<rparr>
          (demo_args 5 3 None))
     = Inr []"
proof -
  let ?once = "\<lparr> generate = (\<lambda>prompt (temp::unit) (tokens::int) (n::nat).
               if n = 1 then Inr (lit ''rain: wet'') else Inl (Exception (lit ''backend down''))),
            prompts_dir = (\<lambda>folder kind. Some (lit ''words'')) \<rparr> :: unit llm_task"
  let ?never = "\<lparr> generate = (\<lambda>prompt (temp::unit) (tokens::int) (n::nat).
               Inl (Exception (lit ''backend down''))),
            prompts_dir = (\<lambda>folder kind. Some (lit ''words'')) \<rparr> :: unit llm_task"
  let ?a = "demo_args 5 3 None"
  let ?item = "[(lit ''key'', PyStr (lit ''rain'')), (lit ''value'', PyStr (lit ''wet''))]"
  let ?items = "\<lambda>i::nat. [?item]"
  have l1: "load_and_fill_prompt ascii_tables (prompts_dir ?once) (task_folder ?a)
      (prompt_type ?a) (placeholders ?a) = Inr (lit ''words'')"
    by (simp add: demo_args_def demo_load)
  have l2: "load_and_fill_prompt ascii_tables (prompts_dir ?never) (task_folder ?a)
      (prompt_type ?a) (placeholders ?a) = Inr (lit ''words'')"
    by (simp add: demo_args_def demo_load)
  have ok: "\<forall>i. 0 < i \<and> i \<le> (1::nat) \<longrightarrow>
      (\<exists>r. generate ?once (lit ''words'') (temperature ?a) (max_tokens ?a) i = Inr r
         \<and> parse_response_by_task ascii_tables r (task_folder ?a) (placeholders ?a) = ?items i
         \<and> ?items i \<noteq> [])"
    by (auto simp: demo_args_def demo_parse)
  have cb: "\<forall>callback x y i e'. progress_callback ?a = Some callback
            \<longrightarrow> callback x y i \<noteq> Some (BaseException e')"
    by (simp add: demo_args_def)
  have lim: "int (1::nat) < max_batches ?a" by (simp add: demo_args_def)
  have short: "int (length (concat (map ?items [1..<Suc 1]))) < target_count ?a"
    by (simp add: demo_args_def)
  have fails: "(\<exists>e'. generate ?once (lit ''words'') (temperature ?a) (max_tokens ?a) (Suc 1)
                  = Inl (Exception e'))
        \<or> (\<exists>r. generate ?once (lit ''words'') (temperature ?a) (max_tokens ?a) (Suc 1) = Inr r
              \<and> parse_response_by_task ascii_tables r (task_folder ?a) (placeholders ?a) = [])"
    by simp
  have first: "generate ?never (lit ''words'') (temperature ?a) (max_tokens ?a) 1
      = Inl (Exception (lit ''backend down''))"
    by simp
  from run_stops_at_failed_batch [where U = ascii_tables and self = ?once and a = ?a
      and prompt = "lit ''words''" and n = 1 and items = ?items]
    l1 ok cb lim short fails
  have "fst (run ascii_tables ?once ?a) = Inr (concat (map ?items [1..<Suc 1]))"
    by blast
  moreover
  from run_stops_at_failed_batch [where U = ascii_tables and self = ?never and a = ?a
      and prompt = "lit ''words''" and e = "lit ''backend down''"]
    l2 first
  have "fst (run ascii_tables ?never ?a) = Inr []"
    by blast
  ultimately show ?thesis by simp
qed

lemma run_loop_callback_irrelevant:
  assumes some: "progress_callback a = Some callback"
    and quiet: "\<forall>x y n e. callback x y n \<noteq> Some (BaseException e)"
  shows "run_loop U self a prompt collected batch_count calls
       = run_loop U self (a\<lparr>progress_callback := Some (\<lambda>x y n. None)\<rparr>) prompt
           collected batch_count calls"
proof (induction "nat (max_batches a) - batch_count" arbitrary: collected batch_count calls
    rule: less_induct)
  case less
  let ?b = "a\<lparr>progress_callback := Some (\<lambda>x y n. None)\<rparr>"
  show ?case
  proof (cases rule: run_loop_cases [of collected a batch_count U self prompt calls])
    case stop
    then show ?thesis
      using run_loop_stop [of collected ?b batch_count U self prompt calls] by simp
  next
    case (exception e)
    then show ?thesis
      using run_loop_generate_exception [of collected ?b batch_count self prompt e U calls]
      by simp
  next
    case (uncaught e)
    then show ?thesis
      using run_loop_generate_uncaught [of collected ?b batch_count self prompt e U calls]
      by simp
  next
    case (no_items response)
    then show ?thesis
      using run_loop_no_items [of collected ?b batch_count self prompt response U calls]
      by simp
  next
    case (callback_uncaught response batch_items cb e)
    with quiet some show ?thesis by simp
  next
    case (batch response batch_items)
    from batch(2) have d: "nat (max_batches a) - Suc batch_count < nat (max_batches a) - batch_count"
      by linarith
    have "run_loop U self ?b prompt collected batch_count calls
        = run_loop U self ?b prompt (collected @ batch_items) (Suc batch_count)
            (calls @ [Generate prompt (temperature ?b) (max_tokens ?b), Parse response,
                      Progress (min (int (length (collected @ batch_items))) (target_count ?b))
                        (target_count ?b)])"
      using batch(1-5)
      by (intro run_loop_batch_callback [where callback = "\<lambda>x y n. None"]) simp_all
    also have "\<dots> = run_loop U self ?b prompt (collected @ batch_items) (Suc batch_count)
        (calls @ batch_calls a prompt response (length (collected @ batch_items)))"
      by (simp add: batch_calls_def some)
    also have "\<dots> = run_loop U self a prompt (collected @ batch_items) (Suc batch_count)
        (calls @ batch_calls a prompt response (length (collected @ batch_items)))"
      using less.hyps [OF d] by simp
    finally show ?thesis using batch(7) by simp
  qed
qed

text \<open>
  C8. When a callback is supplied, a batch that parses to records is followed by one
  call of the callback, with the number of records collected so far, capped at the
  target count, and the target count; if the callback raises an \<open>Exception\<close> the loop
  goes on as if it had returned. The whole run, records and calls, is the one made with
  a callback that never raises.
\<close>

theorem callback_errors_ignored:
  assumes "progress_callback a = Some callback"
    and "\<forall>x y n e. callback x y n \<noteq> Some (BaseException e)"
  shows "(int (length collected) < target_count a \<and> int batch_count < max_batches a
      \<and> generate self prompt (temperature a) (max_tokens a) (Suc batch_count) = Inr response
      \<and> parse_response_by_task U response (task_folder a) (placeholders a) = batch_items
      \<and> batch_items \<noteq> []
    \<longrightarrow> run_loop U self a prompt collected batch_count calls
          = run_loop U self a prompt (collected @ batch_items) (Suc batch_count)
              (calls @ [Generate prompt (temperature a) (max_tokens a), Parse response,
                        Progress (min (int (length (collected @ batch_items))) (target_count a))
                          (target_count a)]))
   \<and> run U self a = run U self (a\<lparr>progress_callback := Some (\<lambda>x y n. None)\<rparr>)"
proof (intro conjI impI)
  assume "int (length collected) < target_count a \<and> int batch_count < max_batches a
      \<and> generate self prompt (temperature a) (max_tokens a) (Suc batch_count) = Inr response
      \<and> parse_response_by_task U response (task_folder a) (placeholders a) = batch_items
      \<and> batch_items \<noteq> []"
  with assms show "run_loop U self a prompt collected batch_count calls
          = run_loop U self a prompt (collected @ batch_items) (Suc batch_count)
              (calls @ [Generate prompt (temperature a) (max_tokens a), Parse response,
                        Progress (min (int (length (collected @ batch_items))) (target_count a))
                          (target_count a)])"
    by (intro run_loop_batch_callback) auto
next
  show "run U self a = run U self (a\<lparr>progress_callback := Some (\<lambda>x y n. None)\<rparr>)"
    by (simp add: run_def run_loop_callback_irrelevant [OF assms] split: sum.splits)
qed

theorem callback_errors_ignored_witness:
  "run ascii_tables (demo_task (lit ''rain: wet''))
     (demo_args 2 5 (Some (\<lambda>x y n. Some (Exception (lit ''observer failed'')))))
   = (Inr (replicate 2 [(lit ''key'', PyStr (lit ''rain'')), (lit ''value'', PyStr (lit ''wet''))]),
      [Generate (lit ''words'') () 500, Parse (lit ''rain: wet''), Progress 1 2,
       Generate (lit ''words'') () 500, Parse (lit ''rain: wet''), Progress 2 2])"
proof -
  let ?cb = "\<lambda>(x::int) (y::int) (n::nat). Some (Exception (lit ''observer failed''))"
  let ?a = "demo_args 2 5 (Some ?cb)"
  have h1: "progress_callback ?a = Some ?cb" by (simp add: demo_args_def)
  have h2: "\<forall>x y n e. ?cb x y n \<noteq> Some (BaseException e)" by simp
  have u: "?a\<lparr>progress_callback := Some (\<lambda>x y n. None)\<rparr> = demo_args 2 5 (Some (\<lambda>x y n. None))"
    by (simp add: demo_args_def)
  have "run ascii_tables (demo_task (lit ''rain: wet'')) (demo_args 2 5 (Some (\<lambda>x y n. None)))
   = (Inr (replicate 2 [(lit ''key'', PyStr (lit ''rain'')), (lit ''value'', PyStr (lit ''wet''))]),
      [Generate (lit ''words'') () 500, Parse (lit ''rain: wet''), Progress 1 2,
       Generate (lit ''words'') () 500, Parse (lit ''rain: wet''), Progress 2 2])"
    by (simp add: run_def demo_args_def demo_task_def demo_load run_loop.simps
        demo_parse slice_to_def numeral_2_eq_2)
  with callback_errors_ignored [OF h1 h2, of "[]" 0 "demo_task (lit ''rain: wet'')"
      "lit ''words''" "lit ''rain: wet''" ascii_tables "[]" "[]"]
  show ?thesis unfolding u by simp
qed

end
